theory Spec2Isabelle
  imports Main "HOL-Library.Sublist"
begin

section \<open>Effects: the log, the network and the clock\<close>

text \<open>
  The scraper talks to three things outside itself: the logging sink, the HTTP session and
  the clock (\<^verbatim>\<open>time.sleep\<close>). Every such call is recorded, in program order, in a
  trace. The log messages are kept structured instead of formatted.
\<close>

text \<open>
  An exception object, with its message. The program has two handlers, and what they catch
  depends on the class: \<open>RequestException\<close> is an instance of
  \<^verbatim>\<open>requests.RequestException\<close> or of one of its subclasses (\<^verbatim>\<open>ConnectionError\<close>,
  \<^verbatim>\<open>Timeout\<close>, \<^verbatim>\<open>HTTPError\<close>, \<^verbatim>\<open>InvalidSchema\<close>), \<open>Exception\<close> an instance of any
  other subclass of \<^verbatim>\<open>Exception\<close>. The handler \<^verbatim>\<open>except requests.RequestException\<close>
  catches the first kind only, \<^verbatim>\<open>except Exception\<close> both. Interrupts of the interpreter
  (\<^verbatim>\<open>KeyboardInterrupt\<close>, \<^verbatim>\<open>SystemExit\<close>) are not instances of \<^verbatim>\<open>Exception\<close> and are
  not part of the model.
\<close>

datatype exn = RequestException string | Exception string

datatype level = Debug | Info | Warning | Error

datatype message =
    Fetching_URL nat string
  | Attempt_failed nat exn
  | Retrying nat
  | Failed_to_fetch string nat
  | Fields_missing
  | Error_parsing exn
  | Scraping_page string
  | Found_posts nat

datatype event =
    Log level message
  | Get string nat
  | Sleep nat

type_synonym trace = "event list"

definition REQUEST_TIMEOUT :: nat where
  "REQUEST_TIMEOUT = 10"

definition RETRY_DELAY :: nat where
  "RETRY_DELAY = 3"

definition MAX_RETRIES :: nat where
  "MAX_RETRIES = 3"

fun is_effect :: "event \<Rightarrow> bool" where
  "is_effect (Log l m) = False"
| "is_effect (Get u n) = True"
| "is_effect (Sleep n) = True"

text \<open>The trace without the log lines: the requests sent and the pauses taken.\<close>

definition effects :: "trace \<Rightarrow> trace" where
  "effects t = filter is_effect t"

fun is_get :: "event \<Rightarrow> bool" where
  "is_get (Get u n) = True"
| "is_get e = False"

definition count_gets :: "trace \<Rightarrow> nat" where
  "count_gets t = length (filter is_get t)"

section \<open>Strings\<close>

text \<open>
  A Python \<^verbatim>\<open>str\<close> is modelled as a \<open>string\<close> whose characters are the code points
  below 256. \<^verbatim>\<open>str.strip()\<close> removes the characters for which \<^verbatim>\<open>str.isspace\<close> holds;
  below 256 these are the code points 9 to 13, 28 to 32, 133 and 160.
\<close>

definition is_space :: "char \<Rightarrow> bool" where
  "is_space c =
     (let n = (of_char c :: nat)
      in (9 \<le> n \<and> n \<le> 13) \<or> (28 \<le> n \<and> n \<le> 32) \<or> n = 133 \<or> n = 160)"

definition strip :: "string \<Rightarrow> string" where
  "strip s = rev (dropWhile is_space (rev (dropWhile is_space s)))"

text \<open>
  \<^verbatim>\<open>str.lower()\<close> on code points below 256: the letters A to Z and the capital letters of
  the Latin-1 block (192 to 222, without the multiplication sign 215) move up by 32.
\<close>

definition lower_char :: "char \<Rightarrow> char" where
  "lower_char c =
     (let n = (of_char c :: nat)
      in if (65 \<le> n \<and> n \<le> 90) \<or> (192 \<le> n \<and> n \<le> 222 \<and> n \<noteq> 215)
         then char_of (n + 32) else c)"

definition lower :: "string \<Rightarrow> string" where
  "lower s = map lower_char s"

text \<open>\<^verbatim>\<open>' '.join(values)\<close>.\<close>

fun join_space :: "string list \<Rightarrow> string" where
  "join_space [] = []"
| "join_space [v] = v"
| "join_space (v # w # vs) = v @ '' '' @ join_space (w # vs)"

section \<open>The parsed document\<close>

text \<open>
  The tree that \<^verbatim>\<open>BeautifulSoup(content, "html.parser")\<close> builds. Of a tag's attributes
  the scraper reads three: \<^verbatim>\<open>class\<close> and, on links, \<^verbatim>\<open>rel\<close>, which the parser stores as
  lists of values, and \<^verbatim>\<open>href\<close>, a single string. \<open>None\<close> is an attribute that is not
  there. \<open>Comment\<close> stands for every string that \<^verbatim>\<open>get_text\<close> and \<^verbatim>\<open>stripped_strings\<close>
  pass over (comments, declarations, the text of scripts and styles).
\<close>

record attrs =
  class_attr :: "string list option"
  rel_attr :: "string list option"
  href_attr :: "string option"

datatype node =
    Tag string attrs "node list"
  | NavigableString string
  | Comment string

text \<open>\<^verbatim>\<open>tag.descendants\<close>: every node below the tag, in document order.\<close>

fun descendants :: "node \<Rightarrow> node list" where
  "descendants (Tag name a cs) = concat (map (\<lambda>c. c # descendants c) cs)"
| "descendants (NavigableString s) = []"
| "descendants (Comment s) = []"

text \<open>
  How a search value is matched against a multi-valued attribute: one of the values is the
  value searched for, or the values joined by spaces are. An absent attribute matches no
  string.
\<close>

definition matches_values :: "string list option \<Rightarrow> string \<Rightarrow> bool" where
  "matches_values vs v =
     (case vs of None \<Rightarrow> False
      | Some ws \<Rightarrow> v \<in> set ws \<or> join_space ws = v)"

text \<open>The three searches of the scraper: by name alone, by name and class, by name and rel.\<close>

datatype criterion = Any_attrs | Class_is string | Rel_is string

fun matches_attrs :: "criterion \<Rightarrow> attrs \<Rightarrow> bool" where
  "matches_attrs Any_attrs a = True"
| "matches_attrs (Class_is v) a = matches_values (class_attr a) v"
| "matches_attrs (Rel_is v) a = matches_values (rel_attr a) v"

fun matches_tag :: "string \<Rightarrow> criterion \<Rightarrow> node \<Rightarrow> bool" where
  "matches_tag name c (Tag n a cs) = (n = name \<and> matches_attrs c a)"
| "matches_tag name c (NavigableString s) = False"
| "matches_tag name c (Comment s) = False"

text \<open>\<^verbatim>\<open>tag.find_all(name, ...)\<close> and \<^verbatim>\<open>tag.find(name, ...)\<close>, the first match or \<open>None\<close>.\<close>

definition find_all :: "node \<Rightarrow> string \<Rightarrow> criterion \<Rightarrow> node list" where
  "find_all tag name c = filter (matches_tag name c) (descendants tag)"

definition find_tag :: "node \<Rightarrow> string \<Rightarrow> criterion \<Rightarrow> node option" where
  "find_tag tag name c =
     (case find_all tag name c of [] \<Rightarrow> None | x # xs \<Rightarrow> Some x)"

text \<open>
  \<^verbatim>\<open>tag.stripped_strings\<close>: the text strings below the tag in document order, each
  stripped, those that are empty after stripping left out.
\<close>

fun string_of :: "node \<Rightarrow> string option" where
  "string_of (NavigableString s) = Some s"
| "string_of (Tag n a cs) = None"
| "string_of (Comment s) = None"

definition stripped_strings :: "node \<Rightarrow> string list" where
  "stripped_strings tag =
     filter (\<lambda>s. length s \<noteq> 0) (map strip (List.map_filter string_of (descendants tag)))"

text \<open>\<^verbatim>\<open>tag.get_text(strip=True)\<close>: the same strings, joined by the empty separator.\<close>

definition get_text_strip :: "node \<Rightarrow> string" where
  "get_text_strip tag = concat (stripped_strings tag)"

text \<open>\<^verbatim>\<open>tag.get("href")\<close>.\<close>

fun get_href :: "node \<Rightarrow> string option" where
  "get_href (Tag n a cs) = href_attr a"
| "get_href (NavigableString s) = None"
| "get_href (Comment s) = None"

section \<open>Requests with retries\<close>

text \<open>
  A response carries its status code and its content; the content is identified with the
  tree the parser builds from it. \<^verbatim>\<open>session.get\<close> either raises an exception, of
  whatever class, or returns a response. What the network answers is not known to the
  program, so it is a parameter: the answer to the \<open>k\<close>-th request of the run, sent to a URL.
\<close>

record response =
  status_code :: nat
  content :: node

datatype get_result = Raises exn | Returns response

type_synonym network = "nat \<Rightarrow> string \<Rightarrow> get_result"

text \<open>
  \<^verbatim>\<open>resp.raise_for_status()\<close> raises an \<^verbatim>\<open>HTTPError\<close>, which is a
  \<^verbatim>\<open>RequestException\<close>, for the codes 400 to 599.
\<close>

definition raise_for_status :: "response \<Rightarrow> exn + response" where
  "raise_for_status resp =
     (if 400 \<le> status_code resp \<and> status_code resp < 600
      then Inl (RequestException ''HTTPError'') else Inr resp)"

text \<open>
  The body of the \<^verbatim>\<open>try\<close> of one attempt: the request and the status check. It ends
  with the response or with the exception raised, which keeps its class.
\<close>

definition attempt_get :: "network \<Rightarrow> nat \<Rightarrow> string \<Rightarrow> exn + response" where
  "attempt_get net k url =
     (case net k url of Raises e \<Rightarrow> Inl e | Returns resp \<Rightarrow> raise_for_status resp)"

text \<open>
  The \<^verbatim>\<open>for attempt in range(1, MAX_RETRIES + 1)\<close> loop of \<^verbatim>\<open>fetch_url\<close>, over the
  attempt numbers still to come. The handler is \<^verbatim>\<open>except requests.RequestException\<close>:
  an exception of another class is not caught and leaves \<^verbatim>\<open>fetch_url\<close>, so the result
  is the exception that propagates (\<open>Inl\<close>) or the value returned. A loop that runs out of
  numbers falls off the end of the function, which returns \<open>None\<close>.
\<close>

fun fetch_attempts ::
  "network \<Rightarrow> string \<Rightarrow> nat list \<Rightarrow> trace \<Rightarrow> (exn + response option) \<times> trace" where
  "fetch_attempts net url [] t = (Inr None, t)"
| "fetch_attempts net url (attempt # rest) t =
     (let t1 = t @ [Log Debug (Fetching_URL attempt url)];
          t2 = t1 @ [Get url REQUEST_TIMEOUT]
      in case attempt_get net (count_gets t1) url of
           Inr resp \<Rightarrow> (Inr (Some resp), t2)
         | Inl (Exception m) \<Rightarrow> (Inl (Exception m), t2)
         | Inl (RequestException m) \<Rightarrow>
             (let t3 = t2 @ [Log Warning (Attempt_failed attempt (RequestException m))]
              in if attempt < MAX_RETRIES
                 then fetch_attempts net url rest
                        (t3 @ [Log Info (Retrying RETRY_DELAY), Sleep RETRY_DELAY])
                 else (Inr None, t3 @ [Log Error (Failed_to_fetch url MAX_RETRIES)])))"

definition fetch_url :: "network \<Rightarrow> string \<Rightarrow> trace \<Rightarrow> (exn + response option) \<times> trace" where
  "fetch_url net url t = fetch_attempts net url [1..<MAX_RETRIES + 1] t"

section \<open>Recipe extraction\<close>

text \<open>The dictionary \<^verbatim>\<open>extract_recipe\<close> returns always has the same five keys.\<close>

record recipe =
  title :: string
  author :: string
  date :: string
  ingredients :: "string list"
  instructions :: "string list"

text \<open>
  \<^verbatim>\<open>extract_recipe\<close> wraps its whole body in \<^verbatim>\<open>try ... except Exception\<close>. To say what
  the handler does, the three operations the body calls on the tree are parameters that may
  raise; \<open>bs4\<close> below is the library as modelled above, whose operations never raise.
\<close>

record ops =
  op_find :: "node \<Rightarrow> string \<Rightarrow> criterion \<Rightarrow> exn + node option"
  op_get_text :: "node \<Rightarrow> exn + string"
  op_stripped_strings :: "node \<Rightarrow> exn + string list"

definition bs4 :: ops where
  "bs4 = \<lparr> op_find = (\<lambda>tag name c. Inr (find_tag tag name c)),
           op_get_text = (\<lambda>tag. Inr (get_text_strip tag)),
           op_stripped_strings = (\<lambda>tag. Inr (stripped_strings tag)) \<rparr>"

text \<open>Sequencing inside a \<^verbatim>\<open>try\<close>: the first exception ends the block.\<close>

definition and_then :: "exn + 'a \<Rightarrow> ('a \<Rightarrow> exn + 'b) \<Rightarrow> exn + 'b" where
  "and_then r f = (case r of Inl e \<Rightarrow> Inl e | Inr x \<Rightarrow> f x)"

text \<open>
  The body of the \<^verbatim>\<open>try\<close>. A tag object is true whatever it contains, so the test
  \<^verbatim>\<open>not (title_tag and author_tag and date_tag and ingr_tag and instr_tag)\<close> asks
  whether one of the five searches returned \<open>None\<close>.
\<close>

definition extract_recipe_body :: "ops \<Rightarrow> node \<Rightarrow> trace \<Rightarrow> exn + (recipe option \<times> trace)" where
  "extract_recipe_body L post t =
     and_then (op_find L post ''div'' (Class_is ''recipe-title'')) (\<lambda>title_tag.
     and_then (op_find L post ''div'' (Class_is ''recipe-author'')) (\<lambda>author_tag.
     and_then (op_find L post ''div'' (Class_is ''recipe-date'')) (\<lambda>date_tag.
     and_then (op_find L post ''div'' (Class_is ''recipe-ingredients'')) (\<lambda>ingr_tag.
     and_then (op_find L post ''div'' (Class_is ''recipe-instructions'')) (\<lambda>instr_tag.
       case (title_tag, author_tag, date_tag, ingr_tag, instr_tag) of
         (Some tt, Some au, Some dt, Some ig, Some ins) \<Rightarrow>
           and_then (op_get_text L tt) (\<lambda>title_text.
           and_then (op_get_text L au) (\<lambda>author_text.
           and_then (op_get_text L dt) (\<lambda>date_text.
           and_then (op_stripped_strings L ig) (\<lambda>ingredient_lines.
           and_then (op_stripped_strings L ins) (\<lambda>instruction_lines.
             Inr (Some \<lparr> title = title_text, author = author_text, date = date_text,
                         ingredients = ingredient_lines,
                         instructions = instruction_lines \<rparr>, t))))))
       | _ \<Rightarrow> Inr (None, t @ [Log Debug Fields_missing]))))))"

definition extract_recipe :: "ops \<Rightarrow> node \<Rightarrow> trace \<Rightarrow> recipe option \<times> trace" where
  "extract_recipe L post t =
     (case extract_recipe_body L post t of
        Inr r \<Rightarrow> r
      | Inl e \<Rightarrow> (None, t @ [Log Error (Error_parsing e)]))"

section \<open>Finding the next page\<close>

text \<open>
  \<^verbatim>\<open>urllib.parse.urljoin\<close> is a parameter of \<^verbatim>\<open>find_next_page\<close>. It stands for the
  calls of \<^verbatim>\<open>urljoin\<close> that return: on some malformed targets \<^verbatim>\<open>urljoin\<close> raises, and
  then no location is returned and none is fetched. A string is true when it is not empty,
  so \<^verbatim>\<open>link.get("href")\<close> fails the test when the attribute is absent or empty.
\<close>

type_synonym resolver = "string \<Rightarrow> string \<Rightarrow> string"

text \<open>The last fallback, the loop over \<^verbatim>\<open>soup.find_all("a")\<close>.\<close>

fun text_links :: "resolver \<Rightarrow> string \<Rightarrow> node list \<Rightarrow> string option" where
  "text_links urljoin base_url [] = None"
| "text_links urljoin base_url (a # rest) =
     (if lower (get_text_strip a) \<in> {''next'', ''more''}
      then (case get_href a of
              None \<Rightarrow> text_links urljoin base_url rest
            | Some h \<Rightarrow> if h \<noteq> [] then Some (urljoin base_url h)
                        else text_links urljoin base_url rest)
      else text_links urljoin base_url rest)"

text \<open>The test \<^verbatim>\<open>x and x.get("href")\<close> on the result of a \<^verbatim>\<open>find\<close>, with the href it passes.\<close>

definition link_href :: "node option \<Rightarrow> string option" where
  "link_href link =
     (case link of None \<Rightarrow> None
      | Some a \<Rightarrow> (case get_href a of None \<Rightarrow> None
                   | Some h \<Rightarrow> if h \<noteq> [] then Some h else None))"

definition find_next_page :: "resolver \<Rightarrow> node \<Rightarrow> string \<Rightarrow> string option" where
  "find_next_page urljoin soup base_url =
     (case link_href (find_tag soup ''a'' (Rel_is ''next'')) of
        Some h \<Rightarrow> Some (urljoin base_url h)
      | None \<Rightarrow>
          (case link_href (find_tag soup ''a'' (Class_is ''next-page'')) of
             Some h \<Rightarrow> Some (urljoin base_url h)
           | None \<Rightarrow> text_links urljoin base_url (find_all soup ''a'' Any_attrs)))"

section \<open>The scraping loop\<close>

record env =
  session_get :: network
  urljoin :: resolver
  soup_ops :: ops

text \<open>
  The \<^verbatim>\<open>for post in recipe_posts\<close> loop. A dictionary with five keys is true, so
  \<^verbatim>\<open>if recipe\<close> holds exactly when \<^verbatim>\<open>extract_recipe\<close> did not return \<open>None\<close>.
\<close>

fun process_posts :: "ops \<Rightarrow> node list \<Rightarrow> recipe list \<Rightarrow> trace \<Rightarrow> recipe list \<times> trace" where
  "process_posts L [] rs t = (rs, t)"
| "process_posts L (post # posts) rs t =
     (case extract_recipe L post t of
        (None, t1) \<Rightarrow> process_posts L posts rs t1
      | (Some r, t1) \<Rightarrow> process_posts L posts (rs @ [r]) t1)"

record loop_state =
  current_url :: "string option"
  all_recipes :: "recipe list"
  events :: trace

text \<open>
  How one pass through the body of the \<^verbatim>\<open>while\<close> loop ends: at the \<^verbatim>\<open>break\<close>, at
  the end of the body, or with an exception that nothing in \<^verbatim>\<open>scrape_recipes\<close> catches.
  The exception takes the local variables with it; what is left is the trace.
\<close>

datatype pass = Break loop_state | Continue loop_state | Raise exn trace

text \<open>
  One pass through the body, entered with \<^verbatim>\<open>current_url\<close> equal to the string \<open>url\<close>.
\<close>

definition loop_body :: "env \<Rightarrow> string \<Rightarrow> loop_state \<Rightarrow> pass" where
  "loop_body E url s =
     (case fetch_url (session_get E) url (events s @ [Log Info (Scraping_page url)]) of
        (Inl e, t1) \<Rightarrow> Raise e t1
      | (Inr None, t1) \<Rightarrow> Break (s\<lparr>events := t1\<rparr>)
      | (Inr (Some resp), t1) \<Rightarrow>
          (let soup = content resp;
               recipe_posts = find_all soup ''div'' (Class_is ''recipe-post'');
               t2 = t1 @ [Log Info (Found_posts (length recipe_posts))];
               (rs, t3) = process_posts (soup_ops E) recipe_posts (all_recipes s) t2
           in case find_next_page (urljoin E) soup url of
                None \<Rightarrow> Continue \<lparr>current_url = None, all_recipes = rs, events = t3\<rparr>
              | Some next_page \<Rightarrow>
                  if next_page \<noteq> [] \<and> next_page \<noteq> url
                  then Continue \<lparr>current_url = Some next_page, all_recipes = rs,
                                 events = t3 @ [Sleep 1]\<rparr>
                  else Continue \<lparr>current_url = None, all_recipes = rs, events = t3\<rparr>))"

text \<open>
  How a run of the loop ends: the loop is left with a final state, or an exception
  propagates out of it.
\<close>

datatype run = Finished loop_state | Propagated exn trace

text \<open>
  \<^verbatim>\<open>while current_url\<close>: the loop ends when \<^verbatim>\<open>current_url\<close> is \<open>None\<close> or the empty
  string, and at a \<^verbatim>\<open>break\<close>. Nothing bounds the number of pages, so the loop is a partial
  function: \<open>None\<close> is the run that never ends.
\<close>

partial_function (option) scrape_loop :: "env \<Rightarrow> loop_state \<Rightarrow> run option" where
  "scrape_loop E s =
     (case current_url s of
        None \<Rightarrow> Some (Finished s)
      | Some url \<Rightarrow>
          if url = [] then Some (Finished s)
          else (case loop_body E url s of
                  Break s' \<Rightarrow> Some (Finished s')
                | Raise e t \<Rightarrow> Some (Propagated e t)
                | Continue s' \<Rightarrow> scrape_loop E s'))"

definition initial :: "string \<Rightarrow> loop_state" where
  "initial start_url = \<lparr>current_url = Some start_url, all_recipes = [], events = []\<rparr>"

text \<open>
  \<^verbatim>\<open>scrape_recipes\<close> returns the list of recipes, or an exception leaves it; the model
  keeps the trace beside either.
\<close>

fun outcome :: "run \<Rightarrow> (exn + recipe list) \<times> trace" where
  "outcome (Finished s) = (Inr (all_recipes s), events s)"
| "outcome (Propagated e t) = (Inl e, t)"

definition scrape_recipes :: "env \<Rightarrow> string \<Rightarrow> ((exn + recipe list) \<times> trace) option" where
  "scrape_recipes E start_url = map_option outcome (scrape_loop E (initial start_url))"

section \<open>Tags as objects\<close>

text \<open>
  A tag is an object of the tree, and a method called on it could change the tree. To say
  whether \<^verbatim>\<open>extract_recipe\<close> does, the tree of the post becomes a piece of state: a tag
  below the post is named by its path, the indexes of the children that lead to it from the
  post, and every operation returns the tree it leaves behind.
\<close>

type_synonym path = "nat list"

fun subtree :: "node \<Rightarrow> path \<Rightarrow> node option" where
  "subtree n [] = Some n"
| "subtree (Tag name a cs) (i # p) = (if i < length cs then subtree (cs ! i) p else None)"
| "subtree (NavigableString s) (i # p) = None"
| "subtree (Comment s) (i # p) = None"

text \<open>The paths of the descendants of a node, in document order.\<close>

fun descendant_paths :: "node \<Rightarrow> path list"
  and child_paths :: "nat \<Rightarrow> node list \<Rightarrow> path list" where
  "descendant_paths (Tag name a cs) = child_paths 0 cs"
| "descendant_paths (NavigableString s) = []"
| "descendant_paths (Comment s) = []"
| "child_paths i [] = []"
| "child_paths i (c # cs) =
     ([i] # map (\<lambda>p. i # p) (descendant_paths c)) @ child_paths (Suc i) cs"

text \<open>
  The three operations \<^verbatim>\<open>extract_recipe\<close> calls, on a tag of the tree: they may raise,
  and they return the tree as they leave it.
\<close>

record tag_ops =
  tag_find :: "path \<Rightarrow> string \<Rightarrow> criterion \<Rightarrow> node \<Rightarrow> (exn + path option) \<times> node"
  tag_get_text :: "path \<Rightarrow> node \<Rightarrow> (exn + string) \<times> node"
  tag_stripped_strings :: "path \<Rightarrow> node \<Rightarrow> (exn + string list) \<times> node"

text \<open>
  The operations of the library: they read the tag at the path and leave the tree as it
  is. \<^verbatim>\<open>find\<close> gives the path of the first descendant that matches.
\<close>

definition matches_at :: "node \<Rightarrow> string \<Rightarrow> criterion \<Rightarrow> path \<Rightarrow> bool" where
  "matches_at n name c q = (case subtree n q of None \<Rightarrow> False | Some x \<Rightarrow> matches_tag name c x)"

definition find_path :: "node \<Rightarrow> string \<Rightarrow> criterion \<Rightarrow> path option" where
  "find_path n name c =
     (case filter (matches_at n name c) (descendant_paths n) of
        [] \<Rightarrow> None | q # qs \<Rightarrow> Some q)"

definition read_tag :: "path \<Rightarrow> (node \<Rightarrow> 'a) \<Rightarrow> node \<Rightarrow> (exn + 'a) \<times> node" where
  "read_tag p f root =
     (case subtree root p of
        None \<Rightarrow> (Inl (Exception ''AttributeError''), root)
      | Some n \<Rightarrow> (Inr (f n), root))"

definition bs4_tags :: tag_ops where
  "bs4_tags =
     \<lparr> tag_find = (\<lambda>p name c. read_tag p (\<lambda>n. map_option (\<lambda>q. p @ q) (find_path n name c))),
       tag_get_text = (\<lambda>p. read_tag p get_text_strip),
       tag_stripped_strings = (\<lambda>p. read_tag p stripped_strings) \<rparr>"

text \<open>Sequencing inside the \<^verbatim>\<open>try\<close>, with the tree passed along.\<close>

definition and_next ::
  "(node \<Rightarrow> (exn + 'a) \<times> node) \<Rightarrow> ('a \<Rightarrow> node \<Rightarrow> (exn + 'b) \<times> node) \<Rightarrow>
   node \<Rightarrow> (exn + 'b) \<times> node" where
  "and_next m f root = (case m root of (Inl e, root') \<Rightarrow> (Inl e, root') | (Inr x, root') \<Rightarrow> f x root')"

definition give :: "'a \<Rightarrow> node \<Rightarrow> (exn + 'a) \<times> node" where
  "give x root = (Inr x, root)"

text \<open>
  The body of the \<^verbatim>\<open>try\<close> of \<^verbatim>\<open>extract_recipe\<close> once more, statement by statement,
  on the post at the path \<open>post\<close>, up to the two log calls; and the function with these
  and its handler, which returns the record or \<open>None\<close>, beside the tree and the trace as
  the call leaves them. The body returns \<open>None\<close> only where the source logs the missing
  fields.
\<close>

definition extract_recipe_tag_body :: "tag_ops \<Rightarrow> path \<Rightarrow> node \<Rightarrow> (exn + recipe option) \<times> node" where
  "extract_recipe_tag_body L post =
     and_next (tag_find L post ''div'' (Class_is ''recipe-title'')) (\<lambda>title_tag.
     and_next (tag_find L post ''div'' (Class_is ''recipe-author'')) (\<lambda>author_tag.
     and_next (tag_find L post ''div'' (Class_is ''recipe-date'')) (\<lambda>date_tag.
     and_next (tag_find L post ''div'' (Class_is ''recipe-ingredients'')) (\<lambda>ingr_tag.
     and_next (tag_find L post ''div'' (Class_is ''recipe-instructions'')) (\<lambda>instr_tag.
       case (title_tag, author_tag, date_tag, ingr_tag, instr_tag) of
         (Some tt, Some au, Some dt, Some ig, Some ins) \<Rightarrow>
           and_next (tag_get_text L tt) (\<lambda>title_text.
           and_next (tag_get_text L au) (\<lambda>author_text.
           and_next (tag_get_text L dt) (\<lambda>date_text.
           and_next (tag_stripped_strings L ig) (\<lambda>ingredient_lines.
           and_next (tag_stripped_strings L ins) (\<lambda>instruction_lines.
             give (Some \<lparr> title = title_text, author = author_text, date = date_text,
                          ingredients = ingredient_lines,
                          instructions = instruction_lines \<rparr>))))))
       | _ \<Rightarrow> give None)))))"

definition extract_recipe_tag ::
  "tag_ops \<Rightarrow> path \<Rightarrow> node \<Rightarrow> trace \<Rightarrow> recipe option \<times> node \<times> trace" where
  "extract_recipe_tag L post root t =
     (case extract_recipe_tag_body L post root of
        (Inr (Some r), root') \<Rightarrow> (Some r, root', t)
      | (Inr None, root') \<Rightarrow> (None, root', t @ [Log Debug Fields_missing])
      | (Inl e, root') \<Rightarrow> (None, root', t @ [Log Error (Error_parsing e)]))"

section \<open>Notions of the specification\<close>

text \<open>
  The definitions of this section are not part of the program. They say in HOL what the
  specification says in words, so that the program can be compared with it.
\<close>

text \<open>
  What the network answers to the attempt that follows \<open>i\<close> earlier attempts of a call of
  \<^verbatim>\<open>fetch_url\<close> entered with trace \<open>t\<close>.
\<close>

definition answer :: "network \<Rightarrow> string \<Rightarrow> trace \<Rightarrow> nat \<Rightarrow> exn + response" where
  "answer net url t i = attempt_get net (count_gets t + i) url"

text \<open>The class names of the five required fields.\<close>

definition markers :: "string list" where
  "markers = [''recipe-title'', ''recipe-author'', ''recipe-date'',
              ''recipe-ingredients'', ''recipe-instructions'']"

text \<open>The text fragments of a node in document order, and its plain text.\<close>

fun text_fragments :: "node \<Rightarrow> string list" where
  "text_fragments (NavigableString s) = [s]"
| "text_fragments (Comment s) = []"
| "text_fragments (Tag n a cs) = concat (map text_fragments cs)"

definition plain_text :: "node \<Rightarrow> string" where
  "plain_text n = concat (text_fragments n)"

text \<open>A string of whitespace only (the empty string is one).\<close>

definition blank :: "string \<Rightarrow> bool" where
  "blank s = list_all is_space s"

text \<open>
  The ordered sequence of non-empty, whitespace-trimmed text fragments within a block.
\<close>

definition trimmed_fragments :: "node \<Rightarrow> string list" where
  "trimmed_fragments n = filter (\<lambda>s. s \<noteq> []) (map strip (text_fragments n))"

text \<open>A library whose operations on tags leave the tree as it is.\<close>

definition read_only :: "tag_ops \<Rightarrow> bool" where
  "read_only L =
     ((\<forall>p name c root. snd (tag_find L p name c root) = root) \<and>
      (\<forall>p root. snd (tag_get_text L p root) = root) \<and>
      (\<forall>p root. snd (tag_stripped_strings L p root) = root))"

text \<open>
  The state after \<open>n\<close> complete passes through the loop body, none of which ended in a
  \<^verbatim>\<open>break\<close> or an exception; \<open>None\<close> when the loop has ended before.
\<close>

fun after_passes :: "env \<Rightarrow> nat \<Rightarrow> loop_state \<Rightarrow> loop_state option" where
  "after_passes E 0 s = Some s"
| "after_passes E (Suc n) s =
     (case current_url s of
        None \<Rightarrow> None
      | Some url \<Rightarrow>
          if url = [] then None
          else (case loop_body E url s of
                  Break s' \<Rightarrow> None
                | Raise e t \<Rightarrow> None
                | Continue s' \<Rightarrow> after_passes E n s'))"

text \<open>The locations passed to the fetcher, in order.\<close>

fun fetched_urls :: "trace \<Rightarrow> string list" where
  "fetched_urls [] = []"
| "fetched_urls (Get u n # t) = u # fetched_urls t"
| "fetched_urls (Log l m # t) = fetched_urls t"
| "fetched_urls (Sleep n # t) = fetched_urls t"

text \<open>
  An absolute URL starts with a scheme: a letter, followed by letters, digits, \<open>+\<close>, \<open>-\<close>
  or \<open>.\<close>, up to the first colon.
\<close>

definition is_letter :: "char \<Rightarrow> bool" where
  "is_letter c =
     (let n = (of_char c :: nat) in (65 \<le> n \<and> n \<le> 90) \<or> (97 \<le> n \<and> n \<le> 122))"

definition is_scheme_char :: "char \<Rightarrow> bool" where
  "is_scheme_char c =
     (let n = (of_char c :: nat)
      in is_letter c \<or> (48 \<le> n \<and> n \<le> 57) \<or> n = 43 \<or> n = 45 \<or> n = 46)"

definition is_absolute :: "string \<Rightarrow> bool" where
  "is_absolute u =
     (case takeWhile (\<lambda>c. c \<noteq> CHR '':'') u of
        [] \<Rightarrow> False
      | c # cs \<Rightarrow> CHR '':'' \<in> set u \<and> is_letter c \<and> list_all is_scheme_char cs)"

text \<open>
  The links of a page, in document order, and the three properties the locator looks for.
\<close>

definition links :: "node \<Rightarrow> node list" where
  "links soup = find_all soup ''a'' Any_attrs"

definition resolvable :: "node \<Rightarrow> bool" where
  "resolvable a = (case get_href a of None \<Rightarrow> False | Some h \<Rightarrow> h \<noteq> [])"

definition has_marker :: "criterion \<Rightarrow> node \<Rightarrow> bool" where
  "has_marker c a = matches_tag ''a'' c a"

definition says_next :: "node \<Rightarrow> bool" where
  "says_next a = (lower (strip (plain_text a)) \<in> {''next'', ''more''})"

text \<open>The target of the first node of a list that has the property \<open>P\<close>.\<close>

definition first_target :: "resolver \<Rightarrow> string \<Rightarrow> (node \<Rightarrow> bool) \<Rightarrow> node list \<Rightarrow> string option" where
  "first_target rj base P as =
     (case filter P as of
        [] \<Rightarrow> None
      | a # rest \<Rightarrow> (case get_href a of None \<Rightarrow> None | Some h \<Rightarrow> Some (rj base h)))"

text \<open>
  The locator as the specification words it: each heuristic looks for a link that has both
  the marker and a resolvable target; the first heuristic that finds one decides.
\<close>

definition next_page_spec :: "resolver \<Rightarrow> node \<Rightarrow> string \<Rightarrow> string option" where
  "next_page_spec rj soup base =
     (case first_target rj base (\<lambda>a. has_marker (Rel_is ''next'') a \<and> resolvable a) (links soup) of
        Some u \<Rightarrow> Some u
      | None \<Rightarrow>
          (case first_target rj base (\<lambda>a. has_marker (Class_is ''next-page'') a \<and> resolvable a)
                  (links soup) of
             Some u \<Rightarrow> Some u
           | None \<Rightarrow> first_target rj base (\<lambda>a. says_next a \<and> resolvable a) (links soup)))"

text \<open>
  The locator with heuristics 1 and 2 looking at the first link that has the marker only,
  and heuristic 3 comparing the trimmed fragments of the link's text, joined.
\<close>

definition first_marked :: "criterion \<Rightarrow> node \<Rightarrow> node list" where
  "first_marked c soup = take 1 (filter (has_marker c) (links soup))"

definition joined_says_next :: "node \<Rightarrow> bool" where
  "joined_says_next a = (lower (concat (trimmed_fragments a)) \<in> {''next'', ''more''})"

definition next_page_first_marked :: "resolver \<Rightarrow> node \<Rightarrow> string \<Rightarrow> string option" where
  "next_page_first_marked rj soup base =
     (case first_target rj base resolvable (first_marked (Rel_is ''next'') soup) of
        Some u \<Rightarrow> Some u
      | None \<Rightarrow>
          (case first_target rj base resolvable (first_marked (Class_is ''next-page'') soup) of
             Some u \<Rightarrow> Some u
           | None \<Rightarrow>
               first_target rj base (\<lambda>a. joined_says_next a \<and> resolvable a) (links soup)))"

section \<open>Example pages and networks\<close>

definition no_attrs :: attrs where
  "no_attrs = \<lparr>class_attr = None, rel_attr = None, href_attr = None\<rparr>"

definition div_class :: "string \<Rightarrow> node list \<Rightarrow> node" where
  "div_class c cs = Tag ''div'' (no_attrs\<lparr>class_attr := Some [c]\<rparr>) cs"

definition document :: "node list \<Rightarrow> node" where
  "document cs = Tag ''[document]'' no_attrs cs"

definition ok_response :: "node \<Rightarrow> response" where
  "ok_response soup = \<lparr>status_code = 200, content = soup\<rparr>"

text \<open>
  An endpoint that fails \<open>n\<close> times and answers from then on: the first failure is a
  transport error, the later ones are responses with status 503.
\<close>

definition failing_first :: "nat \<Rightarrow> network" where
  "failing_first n k url =
     (if k < n
      then (if k = 0 then Raises (RequestException ''ConnectionError'')
            else Returns \<lparr>status_code = 503, content = document []\<rparr>)
      else Returns (ok_response (document [])))"

definition field :: "string \<Rightarrow> string \<Rightarrow> node" where
  "field c s = div_class c [NavigableString s]"

definition simple_post :: "string \<Rightarrow> node" where
  "simple_post ttl = div_class ''recipe-post''
     [field ''recipe-title'' ttl, field ''recipe-author'' ''Ann'', field ''recipe-date'' ''2020'',
      div_class ''recipe-ingredients''
        [NavigableString '' hops '', Tag ''br'' no_attrs [], NavigableString ''  '',
         Comment ''x'', NavigableString ''malt''],
      field ''recipe-instructions'' ''boil '']"

definition simple_recipe :: "string \<Rightarrow> recipe" where
  "simple_recipe ttl = \<lparr>title = ttl, author = ''Ann'', date = ''2020'',
     ingredients = [''hops'', ''malt''], instructions = [''boil'']\<rparr>"

definition incomplete_post :: node where
  "incomplete_post = div_class ''recipe-post'' [field ''recipe-title'' ''Stout'']"

definition ale_title :: node where
  "ale_title = div_class ''recipe-title''
     [NavigableString ''Pale '', Tag ''b'' no_attrs [NavigableString ''Ale'']]"

definition ale_post :: node where
  "ale_post = div_class ''recipe-post''
     [ale_title, field ''recipe-author'' ''Ann'', field ''recipe-date'' ''2020'',
      field ''recipe-ingredients'' ''hops'', field ''recipe-instructions'' ''boil'']"

definition blank_post :: node where
  "blank_post = div_class ''recipe-post''
     [field ''recipe-title'' '' '', div_class ''recipe-author'' [], field ''recipe-date'' [],
      div_class ''recipe-ingredients'' [NavigableString ''  '', Tag ''br'' no_attrs []],
      div_class ''recipe-instructions'' [Comment ''todo'']]"

definition raising_ops :: ops where
  "raising_ops = bs4\<lparr>op_get_text :=
     (\<lambda>tag. if get_text_strip tag = ''Stout'' then Inl (Exception ''ValueError'')
            else Inr (get_text_strip tag))\<rparr>"

text \<open>
  A resolver for the examples. On the references the examples use it gives what
  \<^verbatim>\<open>urljoin\<close> gives: a reference that is a single path segment replaces what follows the
  last slash of the base; a reference with a scheme of its own, found after the leading
  spaces and control characters, is the result as it stands (this is what \<^verbatim>\<open>urljoin\<close>
  does when the scheme is not the scheme of the base).
\<close>

fun base_dir :: "string \<Rightarrow> string" where
  "base_dir [] = []"
| "base_dir (c # cs) =
     (if CHR ''/'' \<in> set cs then c # base_dir cs else if c = CHR ''/'' then [c] else [])"

definition has_own_scheme :: "string \<Rightarrow> bool" where
  "has_own_scheme href = is_absolute (dropWhile (\<lambda>c. (of_char c :: nat) \<le> 32) href)"

definition join_url :: resolver where
  "join_url base href = (if has_own_scheme href then href else base_dir base @ href)"

text \<open>A link with \<^verbatim>\<open>rel="next"\<close> and a link with \<^verbatim>\<open>class="next-page"\<close>.\<close>

definition rel_link :: "string option \<Rightarrow> node" where
  "rel_link h = Tag ''a'' (no_attrs\<lparr>rel_attr := Some [''next''], href_attr := h\<rparr>)
     [NavigableString ''Next'']"

definition class_link :: "string option \<Rightarrow> node" where
  "class_link h = Tag ''a'' (no_attrs\<lparr>class_attr := Some [''next-page''], href_attr := h\<rparr>)
     [NavigableString ''Older'']"

text \<open>
  A listing of two pages: two complete posts, an incomplete one and a \<^verbatim>\<open>rel="next"\<close> link
  on the first, one complete post and no link on the second.
\<close>

definition page_one :: node where
  "page_one = document
     [simple_post ''IPA'', incomplete_post, simple_post ''Porter'',
      rel_link (Some ''page2'')]"

definition page_two :: node where
  "page_two = document [simple_post ''Saison'']"

definition site :: network where
  "site k url =
     (if url = ''http://example.com/recipes/page1'' then Returns (ok_response page_one)
      else if url = ''http://example.com/recipes/page2'' then Returns (ok_response page_two)
      else Raises (RequestException ''ConnectionError''))"

text \<open>The same site when the second page cannot be fetched.\<close>

definition site_losing_page_two :: network where
  "site_losing_page_two k url =
     (if url = ''http://example.com/recipes/page1'' then Returns (ok_response page_one)
      else Raises (RequestException ''ConnectionError''))"

text \<open>
  An endpoint whose first \<open>n\<close> requests fail with a \<^verbatim>\<open>ConnectionError\<close> and whose later
  requests raise an exception that is no \<^verbatim>\<open>RequestException\<close>.
\<close>

definition leaking_after :: "nat \<Rightarrow> network" where
  "leaking_after n k url =
     (if k < n then Raises (RequestException ''ConnectionError'')
      else Raises (Exception ''LocationParseError''))"




text \<open>
  A library that is not read-only: reading the strings of a tag that holds the one line
  \<open>boil\<close> empties the tree.
\<close>

definition clearing_tags :: tag_ops where
  "clearing_tags = bs4_tags\<lparr>tag_stripped_strings :=
     (\<lambda>p root. (fst (tag_stripped_strings bs4_tags p root),
                  if fst (tag_stripped_strings bs4_tags p root) = Inr [''boil'']
                  then document [] else root))\<rparr>"

definition example_env :: "network \<Rightarrow> env" where
  "example_env net = \<lparr>session_get = net, urljoin = join_url, soup_ops = bs4\<rparr>"

text \<open>The state of the loop after the first page of the listing.\<close>

definition after_page_one :: loop_state where
  "after_page_one =
     \<lparr>current_url = Some ''http://example.com/recipes/page2'',
      all_recipes = [simple_recipe ''IPA'', simple_recipe ''Porter''],
      events =
        [Log Info (Scraping_page ''http://example.com/recipes/page1''),
         Log Debug (Fetching_URL 1 ''http://example.com/recipes/page1''),
         Get ''http://example.com/recipes/page1'' 10,
         Log Info (Found_posts 3), Log Debug Fields_missing, Sleep 1]\<rparr>"

text \<open>
  A page with a class marker and a relation marker that point to different targets, and a
  page whose first relation marker has no target.
\<close>

definition both_markers_page :: node where
  "both_markers_page = document
     [class_link (Some ''page3''), rel_link (Some ''page2'')]"

definition two_rel_page :: node where
  "two_rel_page = document
     [rel_link None, rel_link (Some ''page2''), class_link (Some ''page3'')]"

text \<open>A page whose \<^verbatim>\<open>rel="next"\<close> link points to the page itself, served at every URL.\<close>

definition self_page :: node where
  "self_page = document
     [simple_post ''IPA'', rel_link (Some ''page1'')]"

definition looping_site :: network where
  "looping_site k url = Returns (ok_response self_page)"

definition after_self_page :: loop_state where
  "after_self_page =
     \<lparr>current_url = None,
      all_recipes = [simple_recipe ''IPA''],
      events =
        [Log Info (Scraping_page ''http://example.com/recipes/page1''),
         Log Debug (Fetching_URL 1 ''http://example.com/recipes/page1''),
         Get ''http://example.com/recipes/page1'' 10,
         Log Info (Found_posts 1)]\<rparr>"


section \<open>Properties of the fetcher\<close>

lemma attempt_numbers: "[1..<MAX_RETRIES + 1] = [1, 2, 3]"
  by (simp add: MAX_RETRIES_def upt_rec)

lemma effects_append: "effects (t @ u) = effects t @ effects u"
  by (simp add: effects_def)

lemma count_gets_append: "count_gets (t @ u) = count_gets t + count_gets u"
  by (simp add: count_gets_def)

lemma fetch_url_attempts: "fetch_url net url t = fetch_attempts net url [1, 2, 3] t"
  by (simp only: fetch_url_def attempt_numbers)

text \<open>
  Claim C2, amended. \<^verbatim>\<open>fetch_url\<close> sends at most 3 requests. An attempt fails when the
  request or the status check raises a \<^verbatim>\<open>RequestException\<close>. The function returns the
  response of the first attempt that succeeds and sends nothing after it; after a failed
  attempt that is not the third it sleeps for exactly 3 time units; when all three
  attempts fail it returns \<open>None\<close>, with no sleep after the third. An exception of another
  class is not caught: it leaves \<^verbatim>\<open>fetch_url\<close> at the attempt that raised it, with no
  sleep and no further request. The seven cases are all there are.
\<close>

theorem fetch_url_retries:
  "(\<forall>r. answer net url t 0 = Inr r \<longrightarrow>
      fst (fetch_url net url t) = Inr (Some r) \<and>
      effects (snd (fetch_url net url t)) = effects t @ [Get url 10])
   \<and> (\<forall>m r. answer net url t 0 = Inl (RequestException m) \<and> answer net url t 1 = Inr r \<longrightarrow>
      fst (fetch_url net url t) = Inr (Some r) \<and>
      effects (snd (fetch_url net url t)) = effects t @ [Get url 10, Sleep 3, Get url 10])
   \<and> (\<forall>m m' r. answer net url t 0 = Inl (RequestException m) \<and>
        answer net url t 1 = Inl (RequestException m') \<and> answer net url t 2 = Inr r \<longrightarrow>
      fst (fetch_url net url t) = Inr (Some r) \<and>
      effects (snd (fetch_url net url t)) =
        effects t @ [Get url 10, Sleep 3, Get url 10, Sleep 3, Get url 10])
   \<and> (\<forall>m m' m''. answer net url t 0 = Inl (RequestException m) \<and>
        answer net url t 1 = Inl (RequestException m') \<and>
        answer net url t 2 = Inl (RequestException m'') \<longrightarrow>
      fst (fetch_url net url t) = Inr None \<and>
      effects (snd (fetch_url net url t)) =
        effects t @ [Get url 10, Sleep 3, Get url 10, Sleep 3, Get url 10])
   \<and> (\<forall>x. answer net url t 0 = Inl (Exception x) \<longrightarrow>
      fst (fetch_url net url t) = Inl (Exception x) \<and>
      effects (snd (fetch_url net url t)) = effects t @ [Get url 10])
   \<and> (\<forall>m x. answer net url t 0 = Inl (RequestException m) \<and>
        answer net url t 1 = Inl (Exception x) \<longrightarrow>
      fst (fetch_url net url t) = Inl (Exception x) \<and>
      effects (snd (fetch_url net url t)) = effects t @ [Get url 10, Sleep 3, Get url 10])
   \<and> (\<forall>m m' x. answer net url t 0 = Inl (RequestException m) \<and>
        answer net url t 1 = Inl (RequestException m') \<and>
        answer net url t 2 = Inl (Exception x) \<longrightarrow>
      fst (fetch_url net url t) = Inl (Exception x) \<and>
      effects (snd (fetch_url net url t)) =
        effects t @ [Get url 10, Sleep 3, Get url 10, Sleep 3, Get url 10])
   \<and> count_gets (snd (fetch_url net url t)) \<le> count_gets t + 3"
  unfolding fetch_url_attempts answer_def
  by (auto simp add: Let_def effects_def count_gets_def MAX_RETRIES_def RETRY_DELAY_def
      REQUEST_TIMEOUT_def split: sum.splits exn.splits)

text \<open>
  The seven cases of the theorem: endpoints that fail 0, 1, 2 and 3 times with a
  \<^verbatim>\<open>RequestException\<close> before they answer, and endpoints that raise another exception
  at the first, second and third attempt.
\<close>

theorem fetch_url_retries_witness:
  "(answer (failing_first 0) ''http://a/'' [] 0 = Inr (ok_response (document [])) \<and>
    fst (fetch_url (failing_first 0) ''http://a/'' []) = Inr (Some (ok_response (document []))) \<and>
    effects (snd (fetch_url (failing_first 0) ''http://a/'' [])) = [Get ''http://a/'' 10])
   \<and> (answer (failing_first 1) ''http://a/'' [] 0 = Inl (RequestException ''ConnectionError'') \<and>
    answer (failing_first 1) ''http://a/'' [] 1 = Inr (ok_response (document [])) \<and>
    fst (fetch_url (failing_first 1) ''http://a/'' []) = Inr (Some (ok_response (document []))) \<and>
    effects (snd (fetch_url (failing_first 1) ''http://a/'' [])) =
      [Get ''http://a/'' 10, Sleep 3, Get ''http://a/'' 10])
   \<and> (answer (failing_first 2) ''http://a/'' [] 0 = Inl (RequestException ''ConnectionError'') \<and>
    answer (failing_first 2) ''http://a/'' [] 1 = Inl (RequestException ''HTTPError'') \<and>
    answer (failing_first 2) ''http://a/'' [] 2 = Inr (ok_response (document [])) \<and>
    fst (fetch_url (failing_first 2) ''http://a/'' []) = Inr (Some (ok_response (document []))) \<and>
    effects (snd (fetch_url (failing_first 2) ''http://a/'' [])) =
      [Get ''http://a/'' 10, Sleep 3, Get ''http://a/'' 10, Sleep 3, Get ''http://a/'' 10])
   \<and> (answer (failing_first 3) ''http://a/'' [] 0 = Inl (RequestException ''ConnectionError'') \<and>
    answer (failing_first 3) ''http://a/'' [] 1 = Inl (RequestException ''HTTPError'') \<and>
    answer (failing_first 3) ''http://a/'' [] 2 = Inl (RequestException ''HTTPError'') \<and>
    fst (fetch_url (failing_first 3) ''http://a/'' []) = Inr None \<and>
    effects (snd (fetch_url (failing_first 3) ''http://a/'' [])) =
      [Get ''http://a/'' 10, Sleep 3, Get ''http://a/'' 10, Sleep 3, Get ''http://a/'' 10])
   \<and> (answer (leaking_after 0) ''http://a/'' [] 0 = Inl (Exception ''LocationParseError'') \<and>
    fst (fetch_url (leaking_after 0) ''http://a/'' []) = Inl (Exception ''LocationParseError'') \<and>
    effects (snd (fetch_url (leaking_after 0) ''http://a/'' [])) = [Get ''http://a/'' 10])
   \<and> (answer (leaking_after 1) ''http://a/'' [] 0 = Inl (RequestException ''ConnectionError'') \<and>
    answer (leaking_after 1) ''http://a/'' [] 1 = Inl (Exception ''LocationParseError'') \<and>
    fst (fetch_url (leaking_after 1) ''http://a/'' []) = Inl (Exception ''LocationParseError'') \<and>
    effects (snd (fetch_url (leaking_after 1) ''http://a/'' [])) =
      [Get ''http://a/'' 10, Sleep 3, Get ''http://a/'' 10])
   \<and> (answer (leaking_after 2) ''http://a/'' [] 0 = Inl (RequestException ''ConnectionError'') \<and>
    answer (leaking_after 2) ''http://a/'' [] 1 = Inl (RequestException ''ConnectionError'') \<and>
    answer (leaking_after 2) ''http://a/'' [] 2 = Inl (Exception ''LocationParseError'') \<and>
    fst (fetch_url (leaking_after 2) ''http://a/'' []) = Inl (Exception ''LocationParseError'') \<and>
    effects (snd (fetch_url (leaking_after 2) ''http://a/'' [])) =
      [Get ''http://a/'' 10, Sleep 3, Get ''http://a/'' 10, Sleep 3, Get ''http://a/'' 10])"
proof -
  note defs = answer_def attempt_get_def failing_first_def leaking_after_def
    raise_for_status_def ok_response_def count_gets_def
  have a0: "answer (failing_first 0) ''http://a/'' [] 0 = Inr (ok_response (document []))"
    by (simp add: defs)
  have a1: "answer (failing_first 1) ''http://a/'' [] 0 = Inl (RequestException ''ConnectionError'')"
    "answer (failing_first 1) ''http://a/'' [] 1 = Inr (ok_response (document []))"
    by (simp_all add: defs)
  have a2: "answer (failing_first 2) ''http://a/'' [] 0 = Inl (RequestException ''ConnectionError'')"
    "answer (failing_first 2) ''http://a/'' [] 1 = Inl (RequestException ''HTTPError'')"
    "answer (failing_first 2) ''http://a/'' [] 2 = Inr (ok_response (document []))"
    by (simp_all add: defs)
  have a3: "answer (failing_first 3) ''http://a/'' [] 0 = Inl (RequestException ''ConnectionError'')"
    "answer (failing_first 3) ''http://a/'' [] 1 = Inl (RequestException ''HTTPError'')"
    "answer (failing_first 3) ''http://a/'' [] 2 = Inl (RequestException ''HTTPError'')"
    by (simp_all add: defs)
  have b0: "answer (leaking_after 0) ''http://a/'' [] 0 = Inl (Exception ''LocationParseError'')"
    by (simp add: defs)
  have b1: "answer (leaking_after 1) ''http://a/'' [] 0 = Inl (RequestException ''ConnectionError'')"
    "answer (leaking_after 1) ''http://a/'' [] 1 = Inl (Exception ''LocationParseError'')"
    by (simp_all add: defs)
  have b2: "answer (leaking_after 2) ''http://a/'' [] 0 = Inl (RequestException ''ConnectionError'')"
    "answer (leaking_after 2) ''http://a/'' [] 1 = Inl (RequestException ''ConnectionError'')"
    "answer (leaking_after 2) ''http://a/'' [] 2 = Inl (Exception ''LocationParseError'')"
    by (simp_all add: defs)
  have e: "effects [] = []"
    by (simp add: effects_def)
  show ?thesis
    using fetch_url_retries [of "failing_first 0" "''http://a/''" "[]"]
      fetch_url_retries [of "failing_first 1" "''http://a/''" "[]"]
      fetch_url_retries [of "failing_first 2" "''http://a/''" "[]"]
      fetch_url_retries [of "failing_first 3" "''http://a/''" "[]"]
      fetch_url_retries [of "leaking_after 0" "''http://a/''" "[]"]
      fetch_url_retries [of "leaking_after 1" "''http://a/''" "[]"]
      fetch_url_retries [of "leaking_after 2" "''http://a/''" "[]"]
      a0 a1 a2 a3 b0 b1 b2 e
    by simp
qed

text \<open>
  Claim C2 as stated fails at an endpoint where every attempt fails, with an exception that
  is no \<^verbatim>\<open>RequestException\<close>: all three answers are failures, yet \<^verbatim>\<open>fetch_url\<close> sends
  one request, does not sleep, and does not return \<open>None\<close>: the exception leaves it.
\<close>

theorem fetch_url_counterexample:
  "answer (leaking_after 0) ''http://a/'' [] 0 = Inl (Exception ''LocationParseError'') \<and>
   answer (leaking_after 0) ''http://a/'' [] 1 = Inl (Exception ''LocationParseError'') \<and>
   answer (leaking_after 0) ''http://a/'' [] 2 = Inl (Exception ''LocationParseError'') \<and>
   fst (fetch_url (leaking_after 0) ''http://a/'' []) \<noteq> Inr None \<and>
   fst (fetch_url (leaking_after 0) ''http://a/'' []) = Inl (Exception ''LocationParseError'') \<and>
   effects (snd (fetch_url (leaking_after 0) ''http://a/'' [])) = [Get ''http://a/'' 10]"
  by (simp add: answer_def attempt_get_def leaking_after_def count_gets_def fetch_url_attempts
      effects_def Let_def REQUEST_TIMEOUT_def)

section \<open>Properties of the extractor\<close>

lemma map_filter_append:
  "List.map_filter f (xs @ ys) = List.map_filter f xs @ List.map_filter f ys"
  by (simp add: List.map_filter_def)

lemma strings_of_node: "List.map_filter string_of (n # descendants n) = text_fragments n"
proof (induction n)
  case (Tag name a cs)
  have "List.map_filter string_of (concat (map (\<lambda>c. c # descendants c) cs))
        = concat (map text_fragments cs)"
    using Tag
  proof (induction cs)
    case Nil
    show ?case by simp
  next
    case (Cons c cs)
    have "List.map_filter string_of (c # descendants c) = text_fragments c"
      using Cons.prems [of c] by simp
    moreover have "List.map_filter string_of (concat (map (\<lambda>c. c # descendants c) cs))
        = concat (map text_fragments cs)"
      using Cons by simp
    ultimately show ?case
      by (simp only: list.map concat.simps map_filter_append)
  qed
  then show ?case by simp
qed simp_all

lemma strings_of_descendants:
  "List.map_filter string_of (descendants (Tag name a cs)) = text_fragments (Tag name a cs)"
  using strings_of_node [of "Tag name a cs"] by simp

lemma stripped_strings_trimmed:
  "stripped_strings (Tag name a cs) = trimmed_fragments (Tag name a cs)"
  by (simp add: stripped_strings_def trimmed_fragments_def strings_of_descendants
      del: descendants.simps text_fragments.simps)

lemma find_all_tags: "x \<in> set (find_all n name c) \<Longrightarrow> \<exists>a cs. x = Tag name a cs"
  by (cases x) (simp_all add: find_all_def)

lemma find_tag_in_find_all: "find_tag n name c = Some x \<Longrightarrow> x \<in> set (find_all n name c)"
  by (simp add: find_tag_def split: list.splits)

lemma find_tag_is_tag: "find_tag n name c = Some x \<Longrightarrow> \<exists>a cs. x = Tag name a cs"
  using find_all_tags find_tag_in_find_all by blast

lemma extract_recipe_bs4_found:
  assumes "find_tag post ''div'' (Class_is ''recipe-title'') = Some tt"
    and "find_tag post ''div'' (Class_is ''recipe-author'') = Some au"
    and "find_tag post ''div'' (Class_is ''recipe-date'') = Some dt"
    and "find_tag post ''div'' (Class_is ''recipe-ingredients'') = Some ig"
    and "find_tag post ''div'' (Class_is ''recipe-instructions'') = Some ins"
  shows "extract_recipe bs4 post t =
    (Some \<lparr>title = get_text_strip tt, author = get_text_strip au, date = get_text_strip dt,
           ingredients = stripped_strings ig, instructions = stripped_strings ins\<rparr>, t)"
  using assms by (simp add: extract_recipe_def extract_recipe_body_def bs4_def and_then_def)

lemma extract_recipe_bs4_missing:
  assumes "m \<in> set markers" and "find_tag post ''div'' (Class_is m) = None"
  shows "extract_recipe bs4 post t = (None, t @ [Log Debug Fields_missing])"
  using assms
  by (auto simp add: markers_def extract_recipe_def extract_recipe_body_def bs4_def and_then_def
      split: option.splits)

text \<open>The recipe found does not depend on the trace.\<close>

lemma extract_recipe_body_trace:
  "map_sum id fst (extract_recipe_body L post t) = map_sum id fst (extract_recipe_body L post t')"
  by (simp add: extract_recipe_body_def and_then_def split: sum.splits option.splits)

lemma extract_recipe_trace:
  "fst (extract_recipe L post t) = fst (extract_recipe L post t')"
  using extract_recipe_body_trace [of L post t t']
  by (auto simp add: extract_recipe_def split: sum.splits)

lemmas example_defs = field_def simple_post_def simple_recipe_def incomplete_post_def ale_title_def
  ale_post_def blank_post_def div_class_def no_attrs_def document_def

lemmas library_defs = find_tag_def find_all_def matches_values_def get_text_strip_def
  stripped_strings_def strip_def is_space_def

lemma process_posts_recipes:
  "fst (process_posts L ps rs t) = rs @ List.map_filter (\<lambda>p. fst (extract_recipe L p [])) ps"
proof (induction ps arbitrary: rs t)
  case Nil
  show ?case by simp
next
  case (Cons p ps)
  obtain r t1 where e: "extract_recipe L p t = (r, t1)"
    by (cases "extract_recipe L p t")
  then have "fst (extract_recipe L p []) = r"
    using extract_recipe_trace [of L p "[]" t] by simp
  then show ?case
    using Cons e by (cases r) simp_all
qed

lemma process_posts_skip:
  assumes "fst (extract_recipe L post []) = None"
  shows "fst (process_posts L (before @ post # after) rs t) =
         fst (process_posts L (before @ after) rs t)"
  using assms by (simp add: process_posts_recipes map_filter_append)

text \<open>
  Claim C3. When the search for one of the five field markers finds nothing in a post,
  \<^verbatim>\<open>extract_recipe\<close> returns \<open>None\<close>, never a partial record, and the loop over the posts
  of the page appends nothing for this post: the recipes collected are those of the page
  without it.
\<close>

theorem extract_recipe_incomplete:
  assumes "m \<in> set markers" and "find_tag post ''div'' (Class_is m) = None"
  shows "fst (extract_recipe bs4 post t) = None \<and>
         fst (process_posts bs4 [post] rs t) = rs \<and>
         fst (process_posts bs4 (before @ post # after) rs t) =
           fst (process_posts bs4 (before @ after) rs t)"
proof -
  have n: "fst (extract_recipe bs4 post u) = None" for u
    using extract_recipe_bs4_missing [OF assms] by simp
  have "fst (process_posts bs4 [post] rs t) = rs"
    using n [of "[]"] process_posts_recipes [of bs4 "[post]" rs t] by simp
  then show ?thesis
    using n process_posts_skip [of bs4 post] by simp
qed

text \<open>
  A post that has a title only, alone and between two complete posts.
\<close>

theorem extract_recipe_incomplete_witness:
  "''recipe-author'' \<in> set markers \<and>
   find_tag incomplete_post ''div'' (Class_is ''recipe-author'') = None \<and>
   fst (extract_recipe bs4 incomplete_post []) = None \<and>
   fst (process_posts bs4 [incomplete_post] [] []) = [] \<and>
   fst (process_posts bs4 [simple_post ''IPA'', incomplete_post, simple_post ''Porter''] [] []) =
     [simple_recipe ''IPA'', simple_recipe ''Porter'']"
proof -
  have m: "''recipe-author'' \<in> set markers"
    by (simp add: markers_def)
  have f: "find_tag incomplete_post ''div'' (Class_is ''recipe-author'') = None"
    by (simp add: example_defs library_defs)
  have p: "fst (process_posts bs4 ([simple_post ''IPA''] @ [simple_post ''Porter'']) [] []) =
     [simple_recipe ''IPA'', simple_recipe ''Porter'']"
    by (simp add: example_defs library_defs extract_recipe_def extract_recipe_body_def bs4_def
        and_then_def)
  show ?thesis
    using extract_recipe_incomplete [OF m f, of "[]" "[]" "[simple_post ''IPA'']"
        "[simple_post ''Porter'']"] m f p
    by simp
qed

lemma extract_recipe_body_raises:
  assumes "extract_recipe_body L post t = Inl e"
  shows "extract_recipe_body L post t' = Inl e"
  using extract_recipe_body_trace [of L post t t'] assms
  by (cases "extract_recipe_body L post t'") simp_all

text \<open>
  Claim C8. Whatever the operations on the tree do, an exception raised in the body of
  \<^verbatim>\<open>extract_recipe\<close> is caught there: the function logs an error and returns \<open>None\<close>. The
  loop over the posts goes on, and the recipes it collects are those of the page without
  the post that raised.
\<close>

theorem extract_recipe_catches:
  assumes "extract_recipe_body L post t = Inl e"
  shows "extract_recipe L post t = (None, t @ [Log Error (Error_parsing e)]) \<and>
         fst (process_posts L [post] rs t') = rs \<and>
         fst (process_posts L (before @ post # after) rs t') =
           fst (process_posts L (before @ after) rs t')"
proof -
  have n: "fst (extract_recipe L post u) = None" for u
    using extract_recipe_body_raises [OF assms, of u] by (simp add: extract_recipe_def)
  have "fst (process_posts L [post] rs t') = rs"
    using n [of "[]"] process_posts_recipes [of L "[post]" rs t'] by simp
  then show ?thesis
    using assms n process_posts_skip [of L post] by (simp add: extract_recipe_def)
qed

text \<open>
  A library whose \<^verbatim>\<open>get_text\<close> raises on the title \<open>Stout\<close>, and a page where the post
  with this title stands between two others.
\<close>

theorem extract_recipe_catches_witness:
  "extract_recipe_body raising_ops (simple_post ''Stout'') [] = Inl (Exception ''ValueError'') \<and>
   extract_recipe raising_ops (simple_post ''Stout'') [] =
     (None, [Log Error (Error_parsing (Exception ''ValueError''))]) \<and>
   fst (process_posts raising_ops [simple_post ''Stout''] [] []) = [] \<and>
   fst (process_posts raising_ops
          [simple_post ''IPA'', simple_post ''Stout'', simple_post ''Porter''] [] []) =
     [simple_recipe ''IPA'', simple_recipe ''Porter'']"
proof -
  have b: "extract_recipe_body raising_ops (simple_post ''Stout'') [] =
      Inl (Exception ''ValueError'')"
    by (simp add: example_defs library_defs extract_recipe_body_def bs4_def raising_ops_def
        and_then_def)
  have p: "fst (process_posts raising_ops ([simple_post ''IPA''] @ [simple_post ''Porter'']) [] [])
      = [simple_recipe ''IPA'', simple_recipe ''Porter'']"
    by (simp add: example_defs library_defs extract_recipe_def extract_recipe_body_def bs4_def
        raising_ops_def and_then_def)
  show ?thesis
    using extract_recipe_catches [OF b, of "[]" "[]" "[simple_post ''IPA'']"
        "[simple_post ''Porter'']"] b p
    by simp
qed

lemma strip_blank: "blank s \<Longrightarrow> strip s = []"
  by (simp add: blank_def strip_def list_all_iff dropWhile_eq_Nil_conv [THEN iffD2])

lemma strip_empty_iff: "strip s = [] \<longleftrightarrow> blank s"
proof
  assume "strip s = []"
  then have "dropWhile is_space (rev (dropWhile is_space s)) = []"
    by (simp add: strip_def)
  then have "\<forall>c \<in> set (dropWhile is_space s). is_space c"
    by (simp add: dropWhile_eq_Nil_conv)
  then have "dropWhile is_space s = []"
    by (metis hd_dropWhile list.set_sel(1))
  then show "blank s"
    by (simp add: blank_def list_all_iff dropWhile_eq_Nil_conv)
qed (rule strip_blank)

lemma strip_blank_left: "blank w \<Longrightarrow> strip (w @ s) = strip s"
  by (simp add: blank_def strip_def list_all_iff dropWhile_append2)

lemma strip_blank_right:
  assumes "blank w"
  shows "strip (s @ w) = strip s"
proof (cases "blank s")
  case True
  then have "blank (s @ w)"
    using assms by (simp add: blank_def)
  then show ?thesis
    using True by (simp add: strip_blank)
next
  case False
  then have "dropWhile is_space (s @ w) = dropWhile is_space s @ w"
    by (auto simp add: blank_def list_all_iff dropWhile_append1)
  moreover have "dropWhile is_space (rev w @ ys) = dropWhile is_space ys" for ys
    using assms by (intro dropWhile_append2) (simp add: blank_def list_all_iff)
  ultimately show ?thesis
    by (simp add: strip_def)
qed

lemma blank_concat: "blank (concat fs) \<longleftrightarrow> (\<forall>f \<in> set fs. blank f)"
  by (auto simp add: blank_def list_all_iff)

lemma trimmed_blank: "\<forall>f \<in> set fs. blank f \<Longrightarrow> filter (\<lambda>s. s \<noteq> []) (map strip fs) = []"
  by (induction fs) (simp_all add: strip_blank)

lemma trimmed_single:
  "length (filter (\<lambda>s. \<not> blank s) fs) \<le> 1 \<Longrightarrow>
   concat (filter (\<lambda>s. s \<noteq> []) (map strip fs)) = strip (concat fs)"
proof (induction fs)
  case Nil
  show ?case by (simp add: strip_def)
next
  case (Cons f fs)
  show ?case
  proof (cases "blank f")
    case True
    then show ?thesis
      using Cons by (simp add: strip_blank strip_blank_left)
  next
    case False
    then have all: "\<forall>g \<in> set fs. blank g"
      using Cons.prems by (auto simp add: filter_empty_conv)
    then have "blank (concat fs)"
      by (simp add: blank_concat)
    then have "strip (f @ concat fs) = strip f"
      by (rule strip_blank_right)
    then show ?thesis
      using False all by (simp add: trimmed_blank strip_empty_iff)
  qed
qed

lemma strip_ends:
  assumes "strip s \<noteq> []"
  shows "\<not> is_space (hd (strip s)) \<and> \<not> is_space (last (strip s))"
proof -
  let ?d = "dropWhile is_space (rev (dropWhile is_space s))"
  have ne: "?d \<noteq> []"
    using assms by (simp add: strip_def)
  then have l: "\<not> is_space (hd ?d)"
    by (rule hd_dropWhile)
  have "dropWhile is_space s \<noteq> []"
    using ne by (cases "dropWhile is_space s") simp_all
  then have "\<not> is_space (hd (dropWhile is_space s))"
    by (rule hd_dropWhile)
  moreover have "last ?d = hd (dropWhile is_space s)"
    using ne by (metis (no_types, lifting) dropWhile_eq_Nil_conv last_rev rev_rev_ident
        append_Nil2 dropWhile_append1 last_appendR takeWhile_dropWhile_id)
  ultimately show ?thesis
    using l ne by (simp add: strip_def hd_rev last_rev)
qed

lemma extract_recipe_bs4_trimmed:
  assumes "find_tag post ''div'' (Class_is ''recipe-title'') = Some tt"
    and "find_tag post ''div'' (Class_is ''recipe-author'') = Some au"
    and "find_tag post ''div'' (Class_is ''recipe-date'') = Some dt"
    and "find_tag post ''div'' (Class_is ''recipe-ingredients'') = Some ig"
    and "find_tag post ''div'' (Class_is ''recipe-instructions'') = Some ins"
  shows "extract_recipe bs4 post t =
    (Some \<lparr>title = concat (trimmed_fragments tt), author = concat (trimmed_fragments au),
           date = concat (trimmed_fragments dt), ingredients = trimmed_fragments ig,
           instructions = trimmed_fragments ins\<rparr>, t)"
proof -
  have "stripped_strings x = trimmed_fragments x"
    if "find_tag post ''div'' c = Some x" for x c
    using find_tag_is_tag [OF that] stripped_strings_trimmed by auto
  then show ?thesis
    using assms extract_recipe_bs4_found [OF assms, of t]
    by (simp add: get_text_strip_def)
qed

text \<open>
  Claim C6, amended. For a post in which the five markers are found, \<^verbatim>\<open>extract_recipe\<close>
  returns a record whose ingredients and instructions are the trimmed, non-empty text
  fragments of their blocks in document order, none of them starting or ending with
  whitespace. Title, author and date are the trimmed non-empty fragments of their markers
  joined without a separator; this is the trimmed plain text of the marker when at most one
  of its fragments is not blank.
\<close>

theorem extract_recipe_fields:
  assumes "find_tag post ''div'' (Class_is ''recipe-title'') = Some tt"
    and "find_tag post ''div'' (Class_is ''recipe-author'') = Some au"
    and "find_tag post ''div'' (Class_is ''recipe-date'') = Some dt"
    and "find_tag post ''div'' (Class_is ''recipe-ingredients'') = Some ig"
    and "find_tag post ''div'' (Class_is ''recipe-instructions'') = Some ins"
  shows "extract_recipe bs4 post t =
      (Some \<lparr>title = concat (trimmed_fragments tt), author = concat (trimmed_fragments au),
             date = concat (trimmed_fragments dt), ingredients = trimmed_fragments ig,
             instructions = trimmed_fragments ins\<rparr>, t)
    \<and> (\<forall>x \<in> {tt, au, dt}. length (filter (\<lambda>s. \<not> blank s) (text_fragments x)) \<le> 1 \<longrightarrow>
          concat (trimmed_fragments x) = strip (plain_text x))
    \<and> (\<forall>x \<in> {ig, ins}. \<forall>s \<in> set (trimmed_fragments x).
          s \<noteq> [] \<and> \<not> is_space (hd s) \<and> \<not> is_space (last s))"
proof -
  have "concat (trimmed_fragments x) = strip (plain_text x)"
    if "length (filter (\<lambda>s. \<not> blank s) (text_fragments x)) \<le> 1" for x
    using trimmed_single [OF that] by (simp add: trimmed_fragments_def plain_text_def)
  moreover have "s \<noteq> [] \<and> \<not> is_space (hd s) \<and> \<not> is_space (last s)"
    if "s \<in> set (trimmed_fragments x)" for s x
    using that strip_ends by (auto simp add: trimmed_fragments_def)
  ultimately show ?thesis
    using extract_recipe_bs4_trimmed [OF assms, of t] by blast
qed

text \<open>
  A complete post whose ingredients block holds two entries, a line break, a blank string
  and a comment.
\<close>

theorem extract_recipe_fields_witness:
  "find_tag (simple_post ''IPA'') ''div'' (Class_is ''recipe-title'') =
     Some (field ''recipe-title'' ''IPA'') \<and>
   find_tag (simple_post ''IPA'') ''div'' (Class_is ''recipe-ingredients'') =
     Some (div_class ''recipe-ingredients''
        [NavigableString '' hops '', Tag ''br'' no_attrs [], NavigableString ''  '',
         Comment ''x'', NavigableString ''malt'']) \<and>
   extract_recipe bs4 (simple_post ''IPA'') [] = (Some (simple_recipe ''IPA''), []) \<and>
   length (filter (\<lambda>s. \<not> blank s) (text_fragments (field ''recipe-title'' ''IPA''))) \<le> 1 \<and>
   strip (plain_text (field ''recipe-title'' ''IPA'')) = ''IPA'' \<and>
   \<not> is_space (hd ''hops'') \<and> \<not> is_space (last ''hops'') \<and>
   \<not> is_space (hd ''malt'') \<and> \<not> is_space (last ''malt'')"
proof -
  have f: "find_tag (simple_post ''IPA'') ''div'' (Class_is ''recipe-title'') =
      Some (field ''recipe-title'' ''IPA'')"
    "find_tag (simple_post ''IPA'') ''div'' (Class_is ''recipe-author'') =
      Some (field ''recipe-author'' ''Ann'')"
    "find_tag (simple_post ''IPA'') ''div'' (Class_is ''recipe-date'') =
      Some (field ''recipe-date'' ''2020'')"
    "find_tag (simple_post ''IPA'') ''div'' (Class_is ''recipe-ingredients'') =
     Some (div_class ''recipe-ingredients''
        [NavigableString '' hops '', Tag ''br'' no_attrs [], NavigableString ''  '',
         Comment ''x'', NavigableString ''malt''])"
    "find_tag (simple_post ''IPA'') ''div'' (Class_is ''recipe-instructions'') =
      Some (field ''recipe-instructions'' ''boil '')"
    by (simp_all add: example_defs library_defs)
  have t: "trimmed_fragments (field ''recipe-title'' ''IPA'') = [''IPA'']"
    "trimmed_fragments (field ''recipe-author'' ''Ann'') = [''Ann'']"
    "trimmed_fragments (field ''recipe-date'' ''2020'') = [''2020'']"
    "trimmed_fragments (div_class ''recipe-ingredients''
        [NavigableString '' hops '', Tag ''br'' no_attrs [], NavigableString ''  '',
         Comment ''x'', NavigableString ''malt'']) = [''hops'', ''malt'']"
    "trimmed_fragments (field ''recipe-instructions'' ''boil '') = [''boil'']"
    by (simp_all add: example_defs trimmed_fragments_def strip_def is_space_def)
  have b: "length (filter (\<lambda>s. \<not> blank s) (text_fragments (field ''recipe-title'' ''IPA''))) \<le> 1"
    by (simp add: example_defs)
  show ?thesis
    using extract_recipe_fields [OF f, of "[]"] f t b
    by (simp add: simple_recipe_def)
qed

text \<open>
  Claim C6 as stated fails for a title with markup inside: the title \<open>Pale <b>Ale</b>\<close> has
  the trimmed plain text \<open>Pale Ale\<close>, and the record holds \<open>PaleAle\<close>.
\<close>

theorem extract_recipe_title_counterexample:
  "list_all (\<lambda>m. find_tag ale_post ''div'' (Class_is m) \<noteq> None) markers \<and>
   find_tag ale_post ''div'' (Class_is ''recipe-title'') = Some ale_title \<and>
   strip (plain_text ale_title) = ''Pale Ale'' \<and>
   map_option title (fst (extract_recipe bs4 ale_post [])) = Some ''PaleAle''"
  by (simp add: markers_def example_defs library_defs plain_text_def extract_recipe_def
      extract_recipe_body_def bs4_def and_then_def)

text \<open>
  Claim C10. When the five markers are found and hold nothing but whitespace,
  \<^verbatim>\<open>extract_recipe\<close> still returns a record, with empty strings and empty lists, and the
  loop over the posts appends it.
\<close>

theorem extract_recipe_blank_fields:
  assumes "find_tag post ''div'' (Class_is ''recipe-title'') = Some tt"
    and "find_tag post ''div'' (Class_is ''recipe-author'') = Some au"
    and "find_tag post ''div'' (Class_is ''recipe-date'') = Some dt"
    and "find_tag post ''div'' (Class_is ''recipe-ingredients'') = Some ig"
    and "find_tag post ''div'' (Class_is ''recipe-instructions'') = Some ins"
    and "\<forall>x \<in> {tt, au, dt, ig, ins}. \<forall>s \<in> set (text_fragments x). blank s"
  shows "extract_recipe bs4 post t =
      (Some \<lparr>title = [], author = [], date = [], ingredients = [], instructions = []\<rparr>, t)
    \<and> fst (process_posts bs4 [post] rs t) =
      rs @ [\<lparr>title = [], author = [], date = [], ingredients = [], instructions = []\<rparr>]"
proof -
  have "trimmed_fragments x = []" if "\<forall>s \<in> set (text_fragments x). blank s" for x
    using trimmed_blank [OF that] by (simp add: trimmed_fragments_def)
  then have e: "extract_recipe bs4 post t =
      (Some \<lparr>title = [], author = [], date = [], ingredients = [], instructions = []\<rparr>, t)"
    using extract_recipe_bs4_trimmed [OF assms(1-5), of t] assms(6) by simp
  then show ?thesis
    by simp
qed

text \<open>
  A post whose markers hold a space, nothing, an empty string, a blank string beside a line
  break, and a comment.
\<close>

theorem extract_recipe_blank_fields_witness:
  "find_tag blank_post ''div'' (Class_is ''recipe-title'') = Some (field ''recipe-title'' '' '') \<and>
   find_tag blank_post ''div'' (Class_is ''recipe-author'') = Some (div_class ''recipe-author'' []) \<and>
   find_tag blank_post ''div'' (Class_is ''recipe-date'') = Some (field ''recipe-date'' []) \<and>
   find_tag blank_post ''div'' (Class_is ''recipe-ingredients'') =
     Some (div_class ''recipe-ingredients'' [NavigableString ''  '', Tag ''br'' no_attrs []]) \<and>
   find_tag blank_post ''div'' (Class_is ''recipe-instructions'') =
     Some (div_class ''recipe-instructions'' [Comment ''todo'']) \<and>
   extract_recipe bs4 blank_post [] =
     (Some \<lparr>title = [], author = [], date = [], ingredients = [], instructions = []\<rparr>, []) \<and>
   fst (process_posts bs4 [blank_post] [simple_recipe ''IPA''] []) =
     [simple_recipe ''IPA'',
      \<lparr>title = [], author = [], date = [], ingredients = [], instructions = []\<rparr>]"
proof -
  have f: "find_tag blank_post ''div'' (Class_is ''recipe-title'') =
      Some (field ''recipe-title'' '' '')"
    "find_tag blank_post ''div'' (Class_is ''recipe-author'') =
      Some (div_class ''recipe-author'' [])"
    "find_tag blank_post ''div'' (Class_is ''recipe-date'') = Some (field ''recipe-date'' [])"
    "find_tag blank_post ''div'' (Class_is ''recipe-ingredients'') =
      Some (div_class ''recipe-ingredients'' [NavigableString ''  '', Tag ''br'' no_attrs []])"
    "find_tag blank_post ''div'' (Class_is ''recipe-instructions'') =
      Some (div_class ''recipe-instructions'' [Comment ''todo''])"
    by (simp_all add: example_defs library_defs)
  have b: "\<forall>x \<in> {field ''recipe-title'' '' '', div_class ''recipe-author'' [],
        field ''recipe-date'' [],
        div_class ''recipe-ingredients'' [NavigableString ''  '', Tag ''br'' no_attrs []],
        div_class ''recipe-instructions'' [Comment ''todo'']}.
      \<forall>s \<in> set (text_fragments x). blank s"
    by (simp add: example_defs blank_def is_space_def)
  show ?thesis
    using extract_recipe_blank_fields [OF f b, of "[]"]
      extract_recipe_blank_fields [OF f b, of "[]" "[simple_recipe ''IPA'']"] f
    by simp
qed

section \<open>Extraction leaves the tree as it is\<close>

lemma and_next_keeps:
  assumes "\<And>root. snd (m root) = root" and "\<And>x root. snd (f x root) = root"
  shows "snd (and_next m f root) = root"
proof (cases "m root")
  case (Pair r root')
  then have "root' = root"
    using assms(1) [of root] by simp
  then show ?thesis
    using Pair assms(2) by (cases r) (simp_all add: and_next_def)
qed

lemma give_keeps: "snd (give x root) = root"
  by (simp add: give_def)

lemma extract_recipe_tag_body_keeps:
  assumes "read_only L"
  shows "snd (extract_recipe_tag_body L post root) = root"
proof -
  have f: "snd (tag_find L p name c r) = r" for p name c r
    using assms by (simp add: read_only_def)
  have g: "snd (tag_get_text L p r) = r" for p r
    using assms by (simp add: read_only_def)
  have s: "snd (tag_stripped_strings L p r) = r" for p r
    using assms by (simp add: read_only_def)
  show ?thesis
    unfolding extract_recipe_tag_body_def
    by (intro and_next_keeps f) (auto split: option.splits intro!: and_next_keeps g s give_keeps)
qed

lemma extract_recipe_tag_keeps:
  assumes "read_only L"
  shows "fst (snd (extract_recipe_tag L post root t)) = root"
  using extract_recipe_tag_body_keeps [OF assms, of post root]
  by (auto simp add: extract_recipe_tag_def split: prod.splits sum.splits option.splits)

lemma extract_recipe_tag_trace:
  "fst (extract_recipe_tag L post root t) = fst (extract_recipe_tag L post root t')"
  by (auto simp add: extract_recipe_tag_def split: prod.splits sum.splits option.splits)

lemma read_only_bs4_tags: "read_only bs4_tags"
  by (simp add: read_only_def bs4_tags_def read_tag_def split: option.splits)

lemma subtree_append:
  "subtree n (p @ q) = (case subtree n p of None \<Rightarrow> None | Some x \<Rightarrow> subtree x q)"
  by (induction n p rule: subtree.induct) simp_all

lemma paths_and_descendants:
  "map (subtree n) (descendant_paths n) = map Some (descendants n)"
  "length pre = i \<Longrightarrow>
   map (subtree (Tag name a (pre @ cs))) (child_paths i cs) =
   map Some (concat (map (\<lambda>c. c # descendants c) cs))"
proof (induction n and i cs arbitrary: and pre name a rule: descendant_paths_child_paths.induct)
  case (1 name' a' cs)
  show ?case
    using 1 [of "[]" name' a'] by simp
next
  case (2 s)
  show ?case by simp
next
  case (3 s)
  show ?case by simp
next
  case (4 i)
  show ?case by simp
next
  case (5 i c cs)
  have "map (subtree (Tag name a (pre @ c # cs))) (child_paths (Suc i) cs) =
      map Some (concat (map (\<lambda>c. c # descendants c) cs))"
    using 5(2) [of "pre @ [c]" name a] 5(3) by simp
  moreover have "map (subtree (Tag name a (pre @ c # cs))) (map (\<lambda>p. i # p) (descendant_paths c)) =
      map Some (descendants c)"
    using 5(1) 5(3) by (simp add: nth_append comp_def)
  moreover have "subtree (Tag name a (pre @ c # cs)) [i] = Some c"
    using 5(3) by (simp add: nth_append)
  ultimately show ?case
    by simp
qed

lemma filter_paths:
  "map (subtree n) qs = map Some xs \<Longrightarrow>
   map (subtree n) (filter (matches_at n name c) qs) = map Some (filter (matches_tag name c) xs)"
proof (induction qs arbitrary: xs)
  case Nil
  then show ?case by simp
next
  case (Cons q qs)
  then obtain x xs' where x: "xs = x # xs'" "subtree n q = Some x"
    "map (subtree n) qs = map Some xs'"
    by (cases xs) auto
  then show ?case
    using Cons.IH [of xs'] by (simp add: matches_at_def)
qed

lemma find_path_find_tag:
  "rel_option (\<lambda>q x. subtree n q = Some x) (find_path n name c) (find_tag n name c)"
proof -
  have "map (subtree n) (filter (matches_at n name c) (descendant_paths n)) =
      map Some (find_all n name c)"
    using filter_paths [OF paths_and_descendants(1)] by (simp add: find_all_def)
  then show ?thesis
    by (cases "filter (matches_at n name c) (descendant_paths n)")
      (auto simp add: find_path_def find_tag_def split: list.splits)
qed

lemma tag_find_bs4:
  assumes "subtree root post = Some n"
  shows "\<exists>r. tag_find bs4_tags post name c root = (Inr r, root) \<and>
           rel_option (\<lambda>p x. subtree root p = Some x) r (find_tag n name c)"
  using assms find_path_find_tag [of n name c]
  by (cases "find_path n name c"; cases "find_tag n name c")
    (simp_all add: bs4_tags_def read_tag_def subtree_append)

lemma extract_recipe_tag_bs4:
  assumes "subtree root post = Some n"
  shows "extract_recipe_tag bs4_tags post root t =
    (fst (extract_recipe bs4 n t), root, snd (extract_recipe bs4 n t))"
proof -
  note f = tag_find_bs4 [OF assms]
  obtain r1 where r1: "tag_find bs4_tags post ''div'' (Class_is ''recipe-title'') root = (Inr r1, root)"
    "rel_option (\<lambda>p x. subtree root p = Some x) r1
       (find_tag n ''div'' (Class_is ''recipe-title''))"
    using f by blast
  obtain r2 where r2: "tag_find bs4_tags post ''div'' (Class_is ''recipe-author'') root = (Inr r2, root)"
    "rel_option (\<lambda>p x. subtree root p = Some x) r2
       (find_tag n ''div'' (Class_is ''recipe-author''))"
    using f by blast
  obtain r3 where r3: "tag_find bs4_tags post ''div'' (Class_is ''recipe-date'') root = (Inr r3, root)"
    "rel_option (\<lambda>p x. subtree root p = Some x) r3
       (find_tag n ''div'' (Class_is ''recipe-date''))"
    using f by blast
  obtain r4 where r4:
    "tag_find bs4_tags post ''div'' (Class_is ''recipe-ingredients'') root = (Inr r4, root)"
    "rel_option (\<lambda>p x. subtree root p = Some x) r4
       (find_tag n ''div'' (Class_is ''recipe-ingredients''))"
    using f by blast
  obtain r5 where r5:
    "tag_find bs4_tags post ''div'' (Class_is ''recipe-instructions'') root = (Inr r5, root)"
    "rel_option (\<lambda>p x. subtree root p = Some x) r5
       (find_tag n ''div'' (Class_is ''recipe-instructions''))"
    using f by blast
  have g: "tag_get_text bs4_tags p root = (Inr (get_text_strip x), root)"
    "tag_stripped_strings bs4_tags p root = (Inr (stripped_strings x), root)"
    if "subtree root p = Some x" for p x
    using that by (simp_all add: bs4_tags_def read_tag_def)
  show ?thesis
    using r1 r2 r3 r4 r5 g
    by (cases r1; cases r2; cases r3; cases r4; cases r5)
      (clarsimp simp add: extract_recipe_tag_def extract_recipe_tag_body_def and_next_def
        give_def extract_recipe_def extract_recipe_body_def bs4_def and_then_def
        option_rel_Some1 split: option.splits)+
qed

text \<open>
  Claim C9. \<^verbatim>\<open>extract_recipe\<close> changes nothing itself: with a library whose operations on
  tags leave the tree as it is, as those of the library modelled here do, a call leaves the
  tree of the post as it found it, and a second call on the same post, in the state the
  first has left, returns what the first returned, the same record or \<open>None\<close> both times.
  On the tag at the path of the post it computes what \<^verbatim>\<open>extract_recipe\<close> computes on the
  tag as a value.
\<close>

theorem extract_recipe_idempotent:
  "read_only bs4_tags
   \<and> (read_only L \<longrightarrow>
        fst (snd (extract_recipe_tag L post root t)) = root \<and>
        fst (extract_recipe_tag L post
               (fst (snd (extract_recipe_tag L post root t)))
               (snd (snd (extract_recipe_tag L post root t)))) =
          fst (extract_recipe_tag L post root t))
   \<and> (subtree root post = Some n \<longrightarrow>
        extract_recipe_tag bs4_tags post root t =
          (fst (extract_recipe bs4 n t), root, snd (extract_recipe bs4 n t)))"
proof -
  have "fst (extract_recipe_tag L post
               (fst (snd (extract_recipe_tag L post root t)))
               (snd (snd (extract_recipe_tag L post root t)))) =
      fst (extract_recipe_tag L post root t)" if "read_only L"
    using extract_recipe_tag_keeps [OF that, of post root t]
      extract_recipe_tag_trace [of L post root "snd (snd (extract_recipe_tag L post root t))" t]
    by simp
  then show ?thesis
    using read_only_bs4_tags extract_recipe_tag_keeps [of L post root t]
      extract_recipe_tag_bs4 [of root post n t]
    by blast
qed

text \<open>
  The first post of the first page of the listing, run twice: the page is unchanged and
  the record is the same.
\<close>

theorem extract_recipe_idempotent_witness:
  "subtree page_one [0] = Some (simple_post ''IPA'') \<and>
   extract_recipe_tag bs4_tags [0] page_one [] = (Some (simple_recipe ''IPA''), page_one, []) \<and>
   fst (extract_recipe_tag bs4_tags [0]
          (fst (snd (extract_recipe_tag bs4_tags [0] page_one [])))
          (snd (snd (extract_recipe_tag bs4_tags [0] page_one [])))) =
     Some (simple_recipe ''IPA'') \<and>
   extract_recipe bs4 (simple_post ''IPA'') [] = (Some (simple_recipe ''IPA''), [])"
proof -
  have s: "subtree page_one [0] = Some (simple_post ''IPA'')"
    by (simp add: page_one_def document_def)
  have v: "extract_recipe bs4 (simple_post ''IPA'') [] = (Some (simple_recipe ''IPA''), [])"
    by (simp add: example_defs library_defs extract_recipe_def extract_recipe_body_def bs4_def
        and_then_def)
  note main = extract_recipe_idempotent [of bs4_tags "[0]" page_one "[]" "simple_post ''IPA''"]
  have r: "read_only bs4_tags"
    using main by (rule conjunct1)
  have "fst (snd (extract_recipe_tag bs4_tags [0] page_one [])) = page_one"
    "fst (extract_recipe_tag bs4_tags [0]
          (fst (snd (extract_recipe_tag bs4_tags [0] page_one [])))
          (snd (snd (extract_recipe_tag bs4_tags [0] page_one [])))) =
      fst (extract_recipe_tag bs4_tags [0] page_one [])"
    "extract_recipe_tag bs4_tags [0] page_one [] =
      (fst (extract_recipe bs4 (simple_post ''IPA'') []), page_one,
       snd (extract_recipe bs4 (simple_post ''IPA'') []))"
    using main r s by blast+
  then show ?thesis
    using s v by simp
qed

text \<open>
  The hypothesis on the library cannot be dropped: with a library that changes the tree, a
  second run on the same post can return something else.
\<close>

lemma clearing_library_second_run:
  "fst (extract_recipe_tag clearing_tags [0] page_one []) = Some (simple_recipe ''IPA'') \<and>
   fst (extract_recipe_tag clearing_tags [0]
          (fst (snd (extract_recipe_tag clearing_tags [0] page_one [])))
          (snd (snd (extract_recipe_tag clearing_tags [0] page_one [])))) = None"
  by (simp add: clearing_tags_def bs4_tags_def read_tag_def find_path_def matches_at_def
      extract_recipe_tag_def extract_recipe_tag_body_def and_next_def give_def page_one_def
      rel_link_def example_defs library_defs)

section \<open>Properties of the scraping loop\<close>

lemma scrape_loop_passes:
  "after_passes E n s = Some s' \<Longrightarrow> scrape_loop E s = scrape_loop E s'"
proof (induction n arbitrary: s)
  case 0
  then show ?case by simp
next
  case (Suc n)
  then show ?case
    by (subst scrape_loop.simps) (auto split: option.splits if_splits pass.splits)
qed

lemma after_passes_add:
  "after_passes E (m + k) s =
     (case after_passes E m s of None \<Rightarrow> None | Some s' \<Rightarrow> after_passes E k s')"
  by (induction m arbitrary: s) (auto split: option.splits pass.splits)

lemma process_posts_prefix: "prefix rs (fst (process_posts L ps rs t))"
  by (simp add: process_posts_recipes)

lemma loop_body_prefix:
  "loop_body E url s = Continue s' \<Longrightarrow> prefix (all_recipes s) (all_recipes s')"
  using process_posts_prefix
  by (auto simp add: loop_body_def Let_def split: prod.splits option.splits if_splits sum.splits)
    (metis fst_conv)+

lemma after_passes_prefix:
  "after_passes E n s = Some s' \<Longrightarrow> prefix (all_recipes s) (all_recipes s')"
proof (induction n arbitrary: s)
  case 0
  then show ?case by simp
next
  case (Suc n)
  then show ?case
    by (auto split: option.splits if_splits pass.splits dest!: loop_body_prefix)
      (meson prefix_order.trans)
qed

lemma loop_body_break:
  assumes "fst (fetch_url (session_get E) url (events s @ [Log Info (Scraping_page url)])) =
      Inr None"
  shows "loop_body E url s =
    Break (s\<lparr>events := snd (fetch_url (session_get E) url
                                 (events s @ [Log Info (Scraping_page url)]))\<rparr>)"
  using assms
  by (cases "fetch_url (session_get E) url (events s @ [Log Info (Scraping_page url)])")
    (simp add: loop_body_def)

lemma scrape_loop_break:
  assumes "current_url s = Some url" and "url \<noteq> []"
    and "fst (fetch_url (session_get E) url (events s @ [Log Info (Scraping_page url)])) =
      Inr None"
  shows "scrape_loop E s =
    Some (Finished (s\<lparr>events := snd (fetch_url (session_get E) url
                                 (events s @ [Log Info (Scraping_page url)]))\<rparr>))"
  using assms loop_body_break [OF assms(3)] by (subst scrape_loop.simps) simp

text \<open>
  An exception that \<^verbatim>\<open>fetch_url\<close> does not catch is not caught in \<^verbatim>\<open>scrape_recipes\<close>
  either: it ends the run, and no list of recipes is returned.
\<close>

lemma loop_body_raise:
  assumes "fst (fetch_url (session_get E) url (events s @ [Log Info (Scraping_page url)])) =
      Inl e"
  shows "loop_body E url s =
    Raise e (snd (fetch_url (session_get E) url (events s @ [Log Info (Scraping_page url)])))"
  using assms
  by (cases "fetch_url (session_get E) url (events s @ [Log Info (Scraping_page url)])")
    (simp add: loop_body_def)

lemma uncaught_exception_propagates:
  assumes "after_passes E n (initial start_url) = Some s"
    and "current_url s = Some url" and "url \<noteq> []"
    and "fst (fetch_url (session_get E) url (events s @ [Log Info (Scraping_page url)])) =
      Inl e"
  shows "scrape_recipes E start_url =
    Some (Inl e, snd (fetch_url (session_get E) url (events s @ [Log Info (Scraping_page url)])))"
proof -
  have "scrape_loop E s =
      Some (Propagated e (snd (fetch_url (session_get E) url
                                 (events s @ [Log Info (Scraping_page url)]))))"
    using assms(2,3) loop_body_raise [OF assms(4)] by (subst scrape_loop.simps) simp
  then show ?thesis
    using scrape_loop_passes [OF assms(1)] by (simp add: scrape_recipes_def)
qed

text \<open>
  Claim C1. When the loop has made \<open>n\<close> complete passes and the fetch of the next page
  fails for good, that is \<^verbatim>\<open>fetch_url\<close> has used up its attempts and returns \<open>None\<close>,
  \<^verbatim>\<open>scrape_recipes\<close> returns, and returns exactly the recipes accumulated
  in these passes: the recipes held after any earlier pass are a prefix of the result. When
  the very first fetch fails the result is empty.
\<close>

theorem fetch_failure_keeps_recipes:
  assumes "after_passes E n (initial start_url) = Some s"
    and "current_url s = Some url" and "url \<noteq> []"
    and "fst (fetch_url (session_get E) url (events s @ [Log Info (Scraping_page url)])) =
      Inr None"
  shows "scrape_recipes E start_url =
      Some (Inr (all_recipes s),
            snd (fetch_url (session_get E) url (events s @ [Log Info (Scraping_page url)])))
    \<and> (\<forall>m s'. m \<le> n \<and> after_passes E m (initial start_url) = Some s' \<longrightarrow>
          prefix (all_recipes s') (all_recipes s))
    \<and> (n = 0 \<longrightarrow> map_option fst (scrape_recipes E start_url) = Some (Inr []))"
proof -
  have r: "scrape_recipes E start_url =
      Some (Inr (all_recipes s),
            snd (fetch_url (session_get E) url (events s @ [Log Info (Scraping_page url)])))"
    using scrape_loop_passes [OF assms(1)] scrape_loop_break [OF assms(2-4)]
    by (simp add: scrape_recipes_def)
  have "prefix (all_recipes s') (all_recipes s)"
    if "m \<le> n" and "after_passes E m (initial start_url) = Some s'" for m s'
  proof -
    have "after_passes E (m + (n - m)) (initial start_url) = Some s"
      using that(1) assms(1) by simp
    then have "after_passes E (n - m) s' = Some s"
      using that(2) by (simp add: after_passes_add)
    then show ?thesis
      by (rule after_passes_prefix)
  qed
  moreover have "map_option fst (scrape_recipes E start_url) = Some (Inr [])" if "n = 0"
    using that assms(1) r by (auto simp add: initial_def)
  ultimately show ?thesis
    using r by blast
qed

lemmas site_defs = page_one_def page_two_def site_def site_losing_page_two_def example_env_def
  rel_link_def class_link_def ok_response_def join_url_def has_own_scheme_def is_absolute_def is_letter_def
  is_scheme_char_def
  after_page_one_def

lemmas program_defs = loop_body_def fetch_url_attempts attempt_get_def
  raise_for_status_def extract_recipe_def extract_recipe_body_def bs4_def and_then_def
  find_next_page_def link_href_def count_gets_def MAX_RETRIES_def RETRY_DELAY_def
  REQUEST_TIMEOUT_def initial_def lower_def lower_char_def

lemma first_pass_losing:
  "after_passes (example_env site_losing_page_two) (Suc 0)
     (initial ''http://example.com/recipes/page1'') = Some after_page_one"
  by (simp add: site_defs program_defs example_defs library_defs Let_def)

lemma second_fetch_losing:
  "fst (fetch_url site_losing_page_two ''http://example.com/recipes/page2''
        (events after_page_one @ [Log Info (Scraping_page ''http://example.com/recipes/page2'')]))
   = Inr None"
  by (simp add: site_defs program_defs Let_def)

text \<open>
  The listing when its second page cannot be fetched: the two recipes of the first page are
  returned. An endpoint that fails three times at the first page: the result is empty.
\<close>

theorem fetch_failure_keeps_recipes_witness:
  "after_passes (example_env site_losing_page_two) (Suc 0)
     (initial ''http://example.com/recipes/page1'') = Some after_page_one \<and>
   current_url after_page_one = Some ''http://example.com/recipes/page2'' \<and>
   fst (fetch_url site_losing_page_two ''http://example.com/recipes/page2''
        (events after_page_one @ [Log Info (Scraping_page ''http://example.com/recipes/page2'')]))
     = Inr None \<and>
   map_option fst (scrape_recipes (example_env site_losing_page_two)
       ''http://example.com/recipes/page1'') =
     Some (Inr [simple_recipe ''IPA'', simple_recipe ''Porter'']) \<and>
   prefix (all_recipes (initial ''http://example.com/recipes/page1''))
     (all_recipes after_page_one) \<and>
   fst (fetch_url (failing_first 3) ''http://example.com/recipes/page1''
        [Log Info (Scraping_page ''http://example.com/recipes/page1'')]) = Inr None \<and>
   map_option fst (scrape_recipes (example_env (failing_first 3))
       ''http://example.com/recipes/page1'') = Some (Inr [])"
proof -
  have c: "current_url after_page_one = Some ''http://example.com/recipes/page2''"
    "session_get (example_env site_losing_page_two) = site_losing_page_two"
    "all_recipes after_page_one = [simple_recipe ''IPA'', simple_recipe ''Porter'']"
    by (simp_all add: after_page_one_def example_env_def)
  have z: "after_passes (example_env (failing_first 3)) 0
      (initial ''http://example.com/recipes/page1'') =
      Some (initial ''http://example.com/recipes/page1'')"
    "current_url (initial ''http://example.com/recipes/page1'') =
      Some ''http://example.com/recipes/page1''"
    "events (initial ''http://example.com/recipes/page1'') = []"
    "all_recipes (initial ''http://example.com/recipes/page1'') = []"
    "session_get (example_env (failing_first 3)) = failing_first 3"
    by (simp_all add: initial_def example_env_def)
  have f: "fst (fetch_url (failing_first 3) ''http://example.com/recipes/page1''
        [Log Info (Scraping_page ''http://example.com/recipes/page1'')]) = Inr None"
    by (simp add: failing_first_def program_defs Let_def)
  show ?thesis
    using fetch_failure_keeps_recipes [of "example_env site_losing_page_two" "Suc 0"
        "''http://example.com/recipes/page1''" after_page_one
        "''http://example.com/recipes/page2''"]
      fetch_failure_keeps_recipes [of "example_env (failing_first 3)" 0
        "''http://example.com/recipes/page1''" "initial ''http://example.com/recipes/page1''"
        "''http://example.com/recipes/page1''"]
      first_pass_losing second_fetch_losing c z f
    by simp
qed

lemma fetched_urls_append: "fetched_urls (t @ u) = fetched_urls t @ fetched_urls u"
  by (induction t rule: fetched_urls.induct) simp_all

lemma extract_recipe_urls: "fetched_urls (snd (extract_recipe L post t)) = fetched_urls t"
  by (simp add: extract_recipe_def extract_recipe_body_def and_then_def fetched_urls_append
      split: sum.splits option.splits)

lemma process_posts_urls: "fetched_urls (snd (process_posts L ps rs t)) = fetched_urls t"
proof (induction ps arbitrary: rs t)
  case Nil
  show ?case by simp
next
  case (Cons p ps)
  obtain r t1 where e: "extract_recipe L p t = (r, t1)"
    by (cases "extract_recipe L p t")
  then have "fetched_urls t1 = fetched_urls t"
    using extract_recipe_urls [of L p t] by simp
  then show ?case
    using Cons e by (cases r) simp_all
qed

section \<open>Properties of the next-page locator\<close>

lemma find_all_links: "find_all soup ''a'' c = filter (has_marker c) (links soup)"
proof -
  have "matches_tag ''a'' c x \<Longrightarrow> matches_tag ''a'' Any_attrs x" for x
    by (cases x) simp_all
  then have "filter (has_marker c) (filter (matches_tag ''a'' Any_attrs) xs) =
      filter (matches_tag ''a'' c) xs" for xs
    by (induction xs) (auto simp add: has_marker_def)
  then show ?thesis
    by (simp add: find_all_def links_def)
qed

lemma links_are_tags: "a \<in> set (links soup) \<Longrightarrow> \<exists>at cs. a = Tag ''a'' at cs"
  unfolding links_def by (rule find_all_tags)

lemma link_href_first_marked:
  "map_option (rj base) (link_href (find_tag soup ''a'' c)) =
   first_target rj base resolvable (first_marked c soup)"
  by (cases "filter (has_marker c) (links soup)")
    (auto simp add: find_tag_def find_all_links first_marked_def first_target_def link_href_def
      resolvable_def split: option.splits)

lemma text_links_first_target:
  assumes "\<forall>a \<in> set as. \<exists>n at cs. a = Tag n at cs"
  shows "text_links rj base as =
         first_target rj base (\<lambda>a. joined_says_next a \<and> resolvable a) as"
  using assms
proof (induction as)
  case Nil
  show ?case by (simp add: first_target_def)
next
  case (Cons a as)
  then obtain n at cs where a: "a = Tag n at cs"
    by auto
  have t: "get_text_strip a = concat (trimmed_fragments a)"
    unfolding a get_text_strip_def by (simp only: stripped_strings_trimmed)
  have "text_links rj base as =
      first_target rj base (\<lambda>a. joined_says_next a \<and> resolvable a) as"
    using Cons by simp
  then show ?case
    using t by (auto simp add: first_target_def joined_says_next_def resolvable_def
        split: option.splits)
qed

lemma find_next_page_first_marked_eq:
  "find_next_page rj soup base = next_page_first_marked rj soup base"
proof -
  have t: "text_links rj base (find_all soup ''a'' Any_attrs) =
      first_target rj base (\<lambda>a. joined_says_next a \<and> resolvable a) (links soup)"
    using text_links_first_target [of "links soup" rj base] links_are_tags [of _ soup]
    by (fastforce simp add: links_def)
  show ?thesis
    using link_href_first_marked [of rj base soup "Rel_is ''next''"]
      link_href_first_marked [of rj base soup "Class_is ''next-page''"] t
    by (auto simp add: find_next_page_def next_page_first_marked_def split: option.splits)
qed

lemmas page_defs = both_markers_page_def two_rel_page_def self_page_def looping_site_def
  after_self_page_def

lemmas spec_defs = next_page_spec_def next_page_first_marked_def first_target_def first_marked_def
  links_def resolvable_def has_marker_def says_next_def joined_says_next_def plain_text_def
  trimmed_fragments_def

text \<open>
  Claim C4 as stated fails on a page whose first \<^verbatim>\<open>rel="next"\<close> link has no target: a
  later link has the relation marker and a resolvable target, yet the locator returns the
  target of the class marker.
\<close>

theorem find_next_page_counterexample:
  "next_page_spec join_url two_rel_page ''http://example.com/recipes/page1'' =
     Some ''http://example.com/recipes/page2'' \<and>
   find_next_page join_url two_rel_page ''http://example.com/recipes/page1'' =
     Some ''http://example.com/recipes/page3''"
  by (simp add: page_defs spec_defs site_defs program_defs example_defs library_defs)

lemma first_target_marked:
  assumes "\<forall>a. first_marked c soup = [a] \<longrightarrow> resolvable a"
  shows "first_target rj base (\<lambda>a. has_marker c a \<and> resolvable a) (links soup) =
         first_target rj base resolvable (first_marked c soup)"
proof -
  have f: "filter (\<lambda>a. has_marker c a \<and> resolvable a) (links soup) =
      filter resolvable (filter (has_marker c) (links soup))"
    by (simp add: conj_commute)
  show ?thesis
  proof (cases "filter (has_marker c) (links soup)")
    case Nil
    then show ?thesis
      by (simp add: f first_target_def first_marked_def)
  next
    case (Cons a as)
    then have "resolvable a"
      using assms by (simp add: first_marked_def)
    then show ?thesis
      using Cons by (simp add: f first_target_def first_marked_def)
  qed
qed

lemma says_next_joined:
  "length (filter (\<lambda>s. \<not> blank s) (text_fragments a)) \<le> 1 \<Longrightarrow> says_next a = joined_says_next a"
  using trimmed_single [of "text_fragments a"]
  by (simp add: says_next_def joined_says_next_def trimmed_fragments_def plain_text_def)

lemma first_target_says_next:
  assumes "\<forall>a \<in> set as. length (filter (\<lambda>s. \<not> blank s) (text_fragments a)) \<le> 1"
  shows "first_target rj base (\<lambda>a. says_next a \<and> resolvable a) as =
         first_target rj base (\<lambda>a. joined_says_next a \<and> resolvable a) as"
proof -
  have "filter (\<lambda>a. says_next a \<and> resolvable a) as =
      filter (\<lambda>a. joined_says_next a \<and> resolvable a) as"
    using assms by (intro filter_cong) (auto simp add: says_next_joined)
  then show ?thesis
    by (simp add: first_target_def)
qed

text \<open>
  Claim C4, amended. \<^verbatim>\<open>find_next_page\<close> consults three heuristics in a fixed order and
  the first that succeeds decides: (1) the first link with the relation marker \<open>next\<close>, if
  it has a non-empty target; (2) the first link with the class marker \<open>next-page\<close>, if it
  has a non-empty target; (3) the first link that has a non-empty target and whose trimmed
  text fragments, joined and lower-cased, are \<open>next\<close> or \<open>more\<close>. So a first relation link
  with a target wins over every class marker. Where the first link with each marker has a
  target and no link has more than one non-blank text fragment, this is the locator as the
  specification words it.
\<close>

theorem find_next_page_order:
  "find_next_page rj soup base = next_page_first_marked rj soup base
   \<and> (\<forall>a h. first_marked (Rel_is ''next'') soup = [a] \<and> get_href a = Some h \<and> h \<noteq> [] \<longrightarrow>
         find_next_page rj soup base = Some (rj base h))
   \<and> (\<forall>a h. first_target rj base resolvable (first_marked (Rel_is ''next'') soup) = None \<and>
         first_marked (Class_is ''next-page'') soup = [a] \<and> get_href a = Some h \<and> h \<noteq> [] \<longrightarrow>
         find_next_page rj soup base = Some (rj base h))
   \<and> ((\<forall>a. first_marked (Rel_is ''next'') soup = [a] \<longrightarrow> resolvable a) \<and>
       (\<forall>a. first_marked (Class_is ''next-page'') soup = [a] \<longrightarrow> resolvable a) \<and>
       (\<forall>a \<in> set (links soup). length (filter (\<lambda>s. \<not> blank s) (text_fragments a)) \<le> 1) \<longrightarrow>
         find_next_page rj soup base = next_page_spec rj soup base)"
proof -
  have e: "find_next_page rj soup base = next_page_first_marked rj soup base"
    by (rule find_next_page_first_marked_eq)
  have r: "next_page_first_marked rj soup base = Some (rj base h)"
    if "first_marked (Rel_is ''next'') soup = [a]" and "get_href a = Some h" and "h \<noteq> []"
    for a h
    using that by (simp add: next_page_first_marked_def first_target_def resolvable_def)
  have c: "next_page_first_marked rj soup base = Some (rj base h)"
    if "first_target rj base resolvable (first_marked (Rel_is ''next'') soup) = None"
      and "first_marked (Class_is ''next-page'') soup = [a]"
      and "get_href a = Some h" and "h \<noteq> []"
    for a h
    using that by (simp add: next_page_first_marked_def first_target_def resolvable_def)
  have s: "next_page_first_marked rj soup base = next_page_spec rj soup base"
    if "\<forall>a. first_marked (Rel_is ''next'') soup = [a] \<longrightarrow> resolvable a"
      and "\<forall>a. first_marked (Class_is ''next-page'') soup = [a] \<longrightarrow> resolvable a"
      and "\<forall>a \<in> set (links soup). length (filter (\<lambda>s. \<not> blank s) (text_fragments a)) \<le> 1"
    unfolding next_page_first_marked_def next_page_spec_def
      first_target_marked [OF that(1), of rj base] first_target_marked [OF that(2), of rj base]
      first_target_says_next [OF that(3), of rj base]
    by (rule refl)
  show ?thesis
    using e r c s by (simp only:) blast
qed

text \<open>
  The page with both markers, where the relation marker wins although the class marker
  comes first, and the page whose first relation marker has no target.
\<close>

theorem find_next_page_order_witness:
  "first_marked (Rel_is ''next'') both_markers_page = [rel_link (Some ''page2'')] \<and>
   get_href (rel_link (Some ''page2'')) = Some ''page2'' \<and>
   find_next_page join_url both_markers_page ''http://example.com/recipes/page1'' =
     Some ''http://example.com/recipes/page2'' \<and>
   first_target join_url ''http://example.com/recipes/page1'' resolvable
     (first_marked (Rel_is ''next'') two_rel_page) = None \<and>
   first_marked (Class_is ''next-page'') two_rel_page = [class_link (Some ''page3'')] \<and>
   get_href (class_link (Some ''page3'')) = Some ''page3'' \<and>
   find_next_page join_url two_rel_page ''http://example.com/recipes/page1'' =
     Some ''http://example.com/recipes/page3'' \<and>
   next_page_spec join_url both_markers_page ''http://example.com/recipes/page1'' =
     Some ''http://example.com/recipes/page2''"
proof -
  have m: "first_marked (Rel_is ''next'') both_markers_page = [rel_link (Some ''page2'')]"
    "first_marked (Class_is ''next-page'') both_markers_page = [class_link (Some ''page3'')]"
    "first_marked (Class_is ''next-page'') two_rel_page = [class_link (Some ''page3'')]"
    "first_target join_url ''http://example.com/recipes/page1'' resolvable
       (first_marked (Rel_is ''next'') two_rel_page) = None"
    by (simp_all add: page_defs spec_defs site_defs example_defs library_defs)
  have h: "get_href (rel_link (Some ''page2'')) = Some ''page2''"
    "get_href (class_link (Some ''page3'')) = Some ''page3''"
    "resolvable (rel_link (Some ''page2''))" "resolvable (class_link (Some ''page3''))"
    by (simp_all add: rel_link_def class_link_def no_attrs_def resolvable_def)
  have l: "\<forall>a \<in> set (links both_markers_page).
      length (filter (\<lambda>s. \<not> blank s) (text_fragments a)) \<le> 1"
    by (simp add: page_defs spec_defs site_defs example_defs library_defs)
  have j: "join_url ''http://example.com/recipes/page1'' ''page2'' =
      ''http://example.com/recipes/page2''"
    "join_url ''http://example.com/recipes/page1'' ''page3'' =
      ''http://example.com/recipes/page3''"
    by (simp_all add: site_defs)
  have ne: "''page2'' \<noteq> []" "''page3'' \<noteq> []"
    by simp_all
  have r: "find_next_page join_url both_markers_page ''http://example.com/recipes/page1'' =
      Some (join_url ''http://example.com/recipes/page1'' ''page2'')"
    using find_next_page_order [of join_url both_markers_page
        "''http://example.com/recipes/page1''"] m(1) h(1) ne(1)
    by blast
  have c: "find_next_page join_url two_rel_page ''http://example.com/recipes/page1'' =
      Some (join_url ''http://example.com/recipes/page1'' ''page3'')"
    using find_next_page_order [of join_url two_rel_page
        "''http://example.com/recipes/page1''"] m(3,4) h(2) ne(2)
    by blast
  have a: "\<forall>a. first_marked (Rel_is ''next'') both_markers_page = [a] \<longrightarrow> resolvable a"
    "\<forall>a. first_marked (Class_is ''next-page'') both_markers_page = [a] \<longrightarrow> resolvable a"
    using m(1,2) h(3,4) by simp_all
  have s: "find_next_page join_url both_markers_page ''http://example.com/recipes/page1'' =
      next_page_spec join_url both_markers_page ''http://example.com/recipes/page1''"
    using find_next_page_order [of join_url both_markers_page
        "''http://example.com/recipes/page1''"] a l
    by blast
  show ?thesis
    using r c s m h j by simp
qed

text \<open>
  Claim C5 as stated fails: on a page whose next link resolves to the page's own location
  the locator returns this location, not \<open>None\<close>.
\<close>

theorem self_link_counterexample:
  "find_next_page join_url self_page ''http://example.com/recipes/page1'' =
     Some ''http://example.com/recipes/page1''"
  by (simp add: page_defs site_defs program_defs example_defs library_defs)

text \<open>
  Claim C5, amended. When the location \<^verbatim>\<open>find_next_page\<close> returns is, as a string, the
  location of the current page, the loop sets \<^verbatim>\<open>current_url\<close> to \<open>None\<close> and ends: the run
  returns, and no request follows those of the fetch of the current page.
\<close>

theorem self_link_ends_run:
  assumes "current_url s = Some url" and "url \<noteq> []"
    and "fst (fetch_url (session_get E) url (events s @ [Log Info (Scraping_page url)])) =
         Inr (Some resp)"
    and "find_next_page (urljoin E) (content resp) url = Some url"
  shows "\<exists>s'. loop_body E url s = Continue s' \<and> current_url s' = None \<and>
           scrape_loop E s = Some (Finished s') \<and>
           fetched_urls (events s') =
             fetched_urls (snd (fetch_url (session_get E) url
                                  (events s @ [Log Info (Scraping_page url)])))"
proof -
  obtain t1 where f: "fetch_url (session_get E) url (events s @ [Log Info (Scraping_page url)])
      = (Inr (Some resp), t1)"
    using assms(3) by (cases "fetch_url (session_get E) url
        (events s @ [Log Info (Scraping_page url)])") simp
  let ?posts = "find_all (content resp) ''div'' (Class_is ''recipe-post'')"
  let ?p = "process_posts (soup_ops E) ?posts (all_recipes s)
      (t1 @ [Log Info (Found_posts (length ?posts))])"
  let ?s' = "\<lparr>current_url = None, all_recipes = fst ?p, events = snd ?p\<rparr>"
  have b: "loop_body E url s = Continue ?s'"
    using f assms(4) by (simp add: loop_body_def Let_def split: prod.splits)
  have "scrape_loop E ?s' = Some (Finished ?s')"
    by (subst scrape_loop.simps) simp
  then have "scrape_loop E s = Some (Finished ?s')"
    using assms(1,2) b by (subst scrape_loop.simps) simp
  moreover have "fetched_urls (events ?s') = fetched_urls t1"
    by (simp add: process_posts_urls fetched_urls_append)
  ultimately show ?thesis
    using b f by simp
qed

text \<open>The page that links to itself is fetched once.\<close>

theorem self_link_ends_run_witness:
  "current_url (initial ''http://example.com/recipes/page1'') =
     Some ''http://example.com/recipes/page1'' \<and>
   fst (fetch_url looping_site ''http://example.com/recipes/page1''
          [Log Info (Scraping_page ''http://example.com/recipes/page1'')]) =
     Inr (Some (ok_response self_page)) \<and>
   find_next_page join_url self_page ''http://example.com/recipes/page1'' =
     Some ''http://example.com/recipes/page1'' \<and>
   scrape_loop (example_env looping_site) (initial ''http://example.com/recipes/page1'') =
     Some (Finished after_self_page) \<and>
   current_url after_self_page = None \<and>
   fetched_urls (events after_self_page) = [''http://example.com/recipes/page1'']"
proof -
  have i: "current_url (initial ''http://example.com/recipes/page1'') =
      Some ''http://example.com/recipes/page1''"
    "events (initial ''http://example.com/recipes/page1'') = []"
    "session_get (example_env looping_site) = looping_site"
    "urljoin (example_env looping_site) = join_url"
    by (simp_all add: initial_def example_env_def)
  have f: "fst (fetch_url looping_site ''http://example.com/recipes/page1''
          [Log Info (Scraping_page ''http://example.com/recipes/page1'')]) =
     Inr (Some (ok_response self_page))"
    by (simp add: looping_site_def program_defs Let_def ok_response_def)
  have n: "find_next_page join_url (content (ok_response self_page))
      ''http://example.com/recipes/page1'' = Some ''http://example.com/recipes/page1''"
    by (simp add: page_defs site_defs program_defs example_defs library_defs)
  have b: "loop_body (example_env looping_site) ''http://example.com/recipes/page1''
      (initial ''http://example.com/recipes/page1'') = Continue after_self_page"
    by (simp add: page_defs site_defs program_defs example_defs library_defs Let_def)
  have a: "current_url after_self_page = None"
    "fetched_urls (events after_self_page) = [''http://example.com/recipes/page1'']"
    by (simp_all add: after_self_page_def)
  show ?thesis
    using self_link_ends_run [of "initial ''http://example.com/recipes/page1''"
        "''http://example.com/recipes/page1''" "example_env looping_site"
        "ok_response self_page"] i f n b a
    by (auto simp add: ok_response_def)
qed

section \<open>Properties of the locations fetched\<close>















end
